theory Spec2Isabelle
  imports Complex_Main "HOL-Library.Log_Nat"
begin

section \<open>Data model\<close>

text \<open>
  The bulk-extraction handler of \<^verbatim>\<open>src/routes/scripting.js\<close>
  (\<^verbatim>\<open>POST /strava/activities/extract-all\<close>) together with the error middleware of
  \<^verbatim>\<open>src/index.js\<close>.

  A JavaScript number is an IEEE double: one of the three non-finite values, or a finite
  value, held as the rational number it stands for. Where the source computes with
  numbers that the request or the upstream supplies (\<^verbatim>\<open>page += 1\<close>,
  \<^verbatim>\<open>60_000 / rpm\<close>, \<^verbatim>\<open>Number(retryAfter) * 1000\<close>), the result is rounded to
  the nearest double, ties to even. Clock readings are integers of milliseconds and the
  count of fetched pages is a count of iterations; both stay far below \<open>2^53\<close>,
  where the arithmetic of doubles is exact. Strings are lists of 8-bit code units.
\<close>

datatype jsnum = Fin rat | NaN | PosInf | NegInf

datatype json =
    JNull
  | JBool bool
  | JNum rat
  | JStr string
  | JArr "json list"
  | JObj "(string \<times> json) list"

text \<open>An absolute, normalised POSIX path, as the list of its segments.\<close>

type_synonym path = "string list"

text \<open>
  The request as the handler reads it. \<open>authorization\<close> is
  \<^verbatim>\<open>req.get("authorization") || req.get("Authorization")\<close>. A body field is \<open>None\<close>
  when it is \<^verbatim>\<open>null\<close> or \<^verbatim>\<open>undefined\<close> (the \<^verbatim>\<open>??\<close> default applies), and
  otherwise holds the value of \<^verbatim>\<open>Number(field)\<close>, respectively \<^verbatim>\<open>String(field)\<close>
  for \<open>name\<close>.
\<close>

record request =
  authorization :: "string option"
  body_rpm :: "jsnum option"
  body_per_page :: "jsnum option"
  body_start_page :: "jsnum option"
  body_max_pages :: "jsnum option"
  body_name :: "string option"

text \<open>
  What the process and the runtime contribute to one run: the environment variable
  \<^verbatim>\<open>STRAVA_ACCESS_TOKEN\<close>, \<^verbatim>\<open>process.cwd()\<close>, the runtime's conversion of a number
  to a string (used by the template literals), whether \<^verbatim>\<open>fs.mkdir\<close> and the write of
  \<^verbatim>\<open>meta.json\<close> succeed, and the reading of \<^verbatim>\<open>Date.now()\<close> when the handler starts.
\<close>

record env =
  env_token :: "string option"
  cwd :: path
  num_str :: "rat \<Rightarrow> string"
  mkdir_ok :: bool
  meta_write_ok :: bool
  start_clock :: int

text \<open>
  What \<^verbatim>\<open>axios.get\<close> yields: a response with its status, its \<^verbatim>\<open>retry-after\<close> header
  and its parsed body (\<^verbatim>\<open>validateStatus: () => true\<close> makes every status a response),
  or a rejected promise when no response arrives at all.
\<close>

datatype upstream =
    Resp int "string option" json
  | NetFail

text \<open>
  The environment's part in one loop iteration: the upstream's answer; by how much (ms)
  the reading of the send time differs from the reading of \<^verbatim>\<open>now\<close> plus the delay of
  the pacer's timer; by how much the next reading of \<^verbatim>\<open>now\<close> differs from the send
  time; and whether the page write succeeds. Both differences may be negative: the
  runtime does not promise that a timer ends only after \<^verbatim>\<open>Date.now()\<close> has advanced by
  its delay, and the clock may be set back.
\<close>

record step =
  response :: upstream
  lag :: int
  latency :: int
  write_ok :: bool

record meta =
  m_name :: "string option"
  m_per_page :: rat
  m_start_page :: rat
  m_fetched_pages :: nat
  m_generated_at :: int

text \<open>What is written into a file; \<^verbatim>\<open>JSON.stringify\<close> is kept abstract.\<close>

datatype content = PageData "json list" | MetaData meta

text \<open>The effects of a run, in the order they happen.\<close>

datatype event =
    Mkdir path
  | Sleep int
  | SleepInfinity
  | Request int string rat rat
  | WriteFile path content
  | WriteFailed path

datatype reply_body =
    ErrorBody string
  | ErrorDetails string json
  | OkBody path meta

datatype reply = Reply int reply_body

datatype exn = MkdirError path | NetworkError | WriteError path

text \<open>
  How the handler ends: it sent a reply, it passed an exception to \<^verbatim>\<open>next(err)\<close>, or
  the script of upstream answers ran out while the loop still wanted to send a request.
\<close>

datatype result = Replied reply | Forwarded exn | Unfinished

record state =
  page :: rat
  fetchedPages :: nat
  lastRequestAt :: int
  clock :: int
  trace :: "event list"

text \<open>The constants of the handler's closure that the loop reads.\<close>

record cfg =
  c_token :: string
  c_perPage :: rat
  c_name :: string
  c_maxPages :: rat
  c_minIntervalMs :: int
  c_baseDir :: path
  c_num_str :: "rat \<Rightarrow> string"

datatype outcome = Continue | Break | Return reply | Throw exn | Exhausted

section \<open>Strings and the bearer token\<close>

text \<open>The characters \<^verbatim>\<open>\s\<close> and \<^verbatim>\<open>trim()\<close> treat as white space, among 8-bit code units.\<close>

definition is_space :: "char \<Rightarrow> bool" where
  "is_space c \<longleftrightarrow> c \<in> {CHR 0x09, CHR 0x0A, CHR 0x0B, CHR 0x0C, CHR 0x0D, CHR 0x20, CHR 0xA0}"

definition trim :: "string \<Rightarrow> string" where
  "trim s = rev (dropWhile is_space (rev (dropWhile is_space s)))"

text \<open>
  \<open>match_ci lower upper s\<close>: \<open>s\<close> without its prefix when that prefix is the given word,
  each letter in either case.
\<close>

fun match_ci :: "string \<Rightarrow> string \<Rightarrow> string \<Rightarrow> string option" where
  "match_ci [] [] s = Some s"
| "match_ci (l # ls) (u # us) (c # cs) = (if c = l \<or> c = u then match_ci ls us cs else None)"
| "match_ci _ _ _ = None"

text \<open>
  \<^verbatim>\<open>/^Bearer\s+/i\<close>: \<open>None\<close> when the header does not match, otherwise the header with
  the match removed (\<^verbatim>\<open>header.replace(/^Bearer\s+/i, "")\<close>).
\<close>

definition bearer_rest :: "string \<Rightarrow> string option" where
  "bearer_rest h =
     (case match_ci ''bearer'' ''BEARER'' h of
        Some (c # cs) \<Rightarrow> if is_space c then Some (dropWhile is_space cs) else None
      | _ \<Rightarrow> None)"

definition getBearerToken :: "request \<Rightarrow> env \<Rightarrow> string" where
  "getBearerToken req ev =
     (let fallback = trim (case env_token ev of None \<Rightarrow> [] | Some t \<Rightarrow> t) in
      case authorization req of
        None \<Rightarrow> fallback
      | Some header \<Rightarrow>
          if header \<noteq> [] then
            (case bearer_rest header of Some r \<Rightarrow> trim r | None \<Rightarrow> fallback)
          else fallback)"

section \<open>Numbers\<close>

definition isFinite :: "jsnum \<Rightarrow> bool" where
  "isFinite x = (case x of Fin _ \<Rightarrow> True | _ \<Rightarrow> False)"

text \<open>\<^verbatim>\<open>x < c\<close> and \<^verbatim>\<open>x > c\<close> for a finite constant \<open>c\<close>; a comparison with NaN is false.\<close>

fun num_less :: "jsnum \<Rightarrow> rat \<Rightarrow> bool" where
  "num_less (Fin q) c = (q < c)"
| "num_less NaN c = False"
| "num_less PosInf c = False"
| "num_less NegInf c = True"

fun num_greater :: "jsnum \<Rightarrow> rat \<Rightarrow> bool" where
  "num_greater (Fin q) c = (q > c)"
| "num_greater NaN c = False"
| "num_greater PosInf c = True"
| "num_greater NegInf c = False"

text \<open>The value of a number that validation has found finite.\<close>

fun fin_val :: "jsnum \<Rightarrow> rat" where
  "fin_val (Fin q) = q"
| "fin_val _ = 0"

text \<open>\<^verbatim>\<open>Number(req.body?.field ?? dflt)\<close>.\<close>

definition field_or :: "rat \<Rightarrow> jsnum option \<Rightarrow> jsnum" where
  "field_or dflt f = (case f of None \<Rightarrow> Fin dflt | Some v \<Rightarrow> v)"

subsection \<open>Rounding to a double\<close>

text \<open>The binary exponent of a positive number: the \<open>e\<close> with \<open>2^e \<le> q < 2^(e+1)\<close>.\<close>

definition log2_floor :: "rat \<Rightarrow> int" where
  "log2_floor q =
     (if 1 \<le> q then int (floorlog 2 (nat \<lfloor>q\<rfloor>)) - 1
      else (let k = int (floorlog 2 (nat \<lfloor>1 / q\<rfloor>)) - 1
            in if q = 2 powi (- k) then - k else - k - 1))"

text \<open>
  The distance between the doubles around a positive number: 52 fraction bits, and the
  fixed distance of the subnormal numbers below \<open>2^-1022\<close>.
\<close>

definition ulp :: "rat \<Rightarrow> rat" where
  "ulp q = 2 powi (max (log2_floor q) (- 1022) - 52)"

text \<open>The nearest integer, the even one of two that are equally near.\<close>

definition round_even :: "rat \<Rightarrow> int" where
  "round_even x =
     (let f = \<lfloor>x\<rfloor>; d = x - of_int f
      in if d < 1 / 2 then f else if 1 / 2 < d then f + 1 else if even f then f else f + 1)"

definition nearest :: "rat \<Rightarrow> rat" where
  "nearest q = of_int (round_even (q / ulp q)) * ulp q"

text \<open>The double an exact result is rounded to; beyond the largest double it is infinite.\<close>

definition to_double :: "rat \<Rightarrow> jsnum" where
  "to_double q =
     (if q = 0 then Fin 0
      else if 0 < q then (if 2 ^ 1024 \<le> nearest q then PosInf else Fin (nearest q))
      else (if 2 ^ 1024 \<le> nearest (- q) then NegInf else Fin (- nearest (- q))))"

text \<open>\<^verbatim>\<open>page += 1\<close>, for a page number of at least 1 (the sum is below the largest double).\<close>

definition js_incr :: "rat \<Rightarrow> rat" where
  "js_incr x = fin_val (to_double (x + 1))"

text \<open>
  \<^verbatim>\<open>Math.ceil((60_000 / rpm) * 1.0)\<close>: the quotient is rounded to a double; the product
  with 1 and the ceiling are exact.
\<close>

definition minIntervalMs :: "rat \<Rightarrow> int" where
  "minIntervalMs rpm = \<lceil>fin_val (to_double (60000 / rpm)) * 1\<rceil>"

definition is_digit :: "char \<Rightarrow> bool" where
  "is_digit c \<longleftrightarrow> c \<in> set ''0123456789''"

definition digit_val :: "char \<Rightarrow> nat" where
  "digit_val c = of_char c - 48"

text \<open>The natural number that a string of decimal digits writes.\<close>

definition digits_val :: "string \<Rightarrow> nat" where
  "digits_val s = foldl (\<lambda>a c. 10 * a + digit_val c) 0 s"

text \<open>\<^verbatim>\<open>x * 1000\<close>.\<close>

definition times_1000 :: "jsnum \<Rightarrow> jsnum" where
  "times_1000 x = (case x of Fin q \<Rightarrow> to_double (q * 1000) | _ \<Rightarrow> x)"

text \<open>
  The 429 branch:
  \<^verbatim>\<open>retryAfter && String(retryAfter).match(/^\d+$/) ? Number(retryAfter) * 1000 : 10_000\<close>.
  \<^verbatim>\<open>Number\<close> of a string of digits is the double nearest to the number it writes.
\<close>

definition retryMs :: "string option \<Rightarrow> jsnum" where
  "retryMs retryAfter =
     (case retryAfter of
        None \<Rightarrow> Fin 10000
      | Some s \<Rightarrow>
          if s \<noteq> [] \<and> list_all is_digit s then times_1000 (to_double (of_nat (digits_val s)))
          else Fin 10000)"

section \<open>Paths\<close>

fun split_slash :: "string \<Rightarrow> string list" where
  "split_slash [] = [[]]"
| "split_slash (c # cs) =
     (if c = CHR ''/'' then [] # split_slash cs
      else (case split_slash cs of [] \<Rightarrow> [[c]] | w # ws \<Rightarrow> (c # w) # ws))"

text \<open>
  Appending segments to an absolute path as \<^verbatim>\<open>path.join\<close> normalises them: empty and
  \<^verbatim>\<open>.\<close> segments vanish, \<^verbatim>\<open>..\<close> removes the last segment (and stays at the root).
\<close>

fun push_segs :: "path \<Rightarrow> string list \<Rightarrow> path" where
  "push_segs p [] = p"
| "push_segs p (s # ss) =
     (if s = [] \<or> s = ''.'' then push_segs p ss
      else if s = ''..'' then push_segs (butlast p) ss
      else push_segs (p @ [s]) ss)"

definition path_join :: "path \<Rightarrow> string \<Rightarrow> path" where
  "path_join base f = push_segs base (split_slash f)"

text \<open>\<^verbatim>\<open>path.resolve(process.cwd(), "data-scripting", "strava")\<close>.\<close>

definition baseDir :: "env \<Rightarrow> path" where
  "baseDir ev = push_segs (cwd ev) [''data-scripting'', ''strava'']"

text \<open>\<^verbatim>\<open>name ? `${name}_page_${page}.json` : `page_${page}.json`\<close>.\<close>

definition filename :: "cfg \<Rightarrow> rat \<Rightarrow> string" where
  "filename c pg =
     (if c_name c \<noteq> [] then c_name c @ ''_page_'' @ c_num_str c pg @ ''.json''
      else ''page_'' @ c_num_str c pg @ ''.json'')"

definition outPath :: "cfg \<Rightarrow> rat \<Rightarrow> path" where
  "outPath c pg = path_join (c_baseDir c) (filename c pg)"

section \<open>The loop\<close>

text \<open>
  \<^verbatim>\<open>setTimeout\<close> of the runtime: a delay below 1 or above \<open>2^31 - 1\<close> is set to 1.
\<close>

definition timer_delay :: "int \<Rightarrow> int" where
  "timer_delay ms = (if ms < 1 \<or> ms > 2147483647 then 1 else ms)"

text \<open>
  \<^verbatim>\<open>await sleep(ms)\<close>, as an effect. What the clock reads afterwards is the
  environment's.
\<close>

definition sleep :: "int \<Rightarrow> state \<Rightarrow> state" where
  "sleep ms st = st\<lparr>trace := trace st @ [Sleep ms]\<rparr>"

text \<open>
  \<^verbatim>\<open>await sleep(retryMs)\<close> for the backoff, which is a whole number of milliseconds or
  infinite.
\<close>

definition sleep_event :: "jsnum \<Rightarrow> event" where
  "sleep_event ms = (case ms of Fin q \<Rightarrow> Sleep \<lfloor>q\<rfloor> | _ \<Rightarrow> SleepInfinity)"

definition backoff :: "jsnum \<Rightarrow> state \<Rightarrow> state" where
  "backoff ms st = st\<lparr>trace := trace st @ [sleep_event ms]\<rparr>"

text \<open>
  \<^verbatim>\<open>lastRequestAt ? Math.max(0, lastRequestAt + minIntervalMs - now) : 0\<close>.
\<close>

definition waitMs :: "int \<Rightarrow> int \<Rightarrow> int \<Rightarrow> int" where
  "waitMs lastAt minInt now = (if lastAt \<noteq> 0 then max 0 (lastAt + minInt - now) else 0)"

text \<open>\<^verbatim>\<open>maxPages && fetchedPages >= maxPages\<close>.\<close>

definition reached :: "cfg \<Rightarrow> state \<Rightarrow> bool" where
  "reached c st \<longleftrightarrow> c_maxPages c \<noteq> 0 \<and> of_nat (fetchedPages st) \<ge> c_maxPages c"

text \<open>
  The pacer, and the send: \<^verbatim>\<open>now = Date.now()\<close>, the wait, then
  \<^verbatim>\<open>lastRequestAt = Date.now()\<close>, which reads the delay of the timer and \<open>lag\<close> after
  \<open>now\<close>, then the request leaves; the next reading of the clock is \<open>latency\<close> after
  the send time.
\<close>

definition send :: "cfg \<Rightarrow> step \<Rightarrow> state \<Rightarrow> state" where
  "send c e st =
     (let now = clock st;
          w = waitMs (lastRequestAt st) (c_minIntervalMs c) now;
          st1 = (if w \<noteq> 0 then sleep w st else st);
          t = now + (if w \<noteq> 0 then timer_delay w else 0) + lag e
      in st1\<lparr>lastRequestAt := t,
             clock := t + latency e,
             trace := trace st1 @ [Request t (c_token c) (page st1) (c_perPage c)]\<rparr>)"

text \<open>The body of \<^verbatim>\<open>while (true)\<close> after the \<open>maxPages\<close> guard.\<close>

definition iteration :: "cfg \<Rightarrow> step \<Rightarrow> state \<Rightarrow> outcome \<times> state" where
  "iteration c e st =
     (let st2 = send c e st in
      case response e of
        NetFail \<Rightarrow> (Throw NetworkError, st2)
      | Resp status retryAfter data \<Rightarrow>
          if status = 401 then
            (Return (Reply 401 (ErrorBody ''401 Unauthorized (bad STRAVA_ACCESS_TOKEN)'')), st2)
          else if status = 429 then
            (Continue, backoff (retryMs retryAfter) st2)
          else if status < 200 \<or> status \<ge> 300 then
            (Return (Reply 502 (ErrorDetails
               (''Strava API error (HTTP '' @ c_num_str c (of_int status) @ '')'') data)), st2)
          else
            (case data of
               JArr records \<Rightarrow>
                 if records = [] then (Break, st2)
                 else if write_ok e then
                   (Continue,
                    st2\<lparr>page := js_incr (page st2),
                        fetchedPages := fetchedPages st2 + 1,
                        trace := trace st2 @ [WriteFile (outPath c (page st2)) (PageData records)]\<rparr>)
                 else
                   (Throw (WriteError (outPath c (page st2))),
                    st2\<lparr>trace := trace st2 @ [WriteFailed (outPath c (page st2))]\<rparr>)
             | _ \<Rightarrow>
                 (Return (Reply 502 (ErrorDetails
                    ''Unexpected Strava response (expected JSON array)'' data)), st2)))"

text \<open>
  \<^verbatim>\<open>while (true)\<close>, one upstream answer of the script per iteration. The loop of the
  source need not end; here it is \<open>Exhausted\<close> when it wants to send a request and the
  script has no answer left.
\<close>

fun loop :: "cfg \<Rightarrow> state \<Rightarrow> step list \<Rightarrow> outcome \<times> state" where
  "loop c st [] = (if reached c st then (Break, st) else (Exhausted, st))"
| "loop c st (e # es) =
     (if reached c st then (Break, st)
      else (case iteration c e st of
              (Continue, st') \<Rightarrow> loop c st' es
            | (out, st') \<Rightarrow> (out, st')))"

section \<open>The handler\<close>

text \<open>The constants the handler computes from the request body.\<close>

definition rpm_of :: "request \<Rightarrow> jsnum" where
  "rpm_of req = field_or 15 (body_rpm req)"

definition perPage_of :: "request \<Rightarrow> jsnum" where
  "perPage_of req = field_or 200 (body_per_page req)"

definition startPage_of :: "request \<Rightarrow> jsnum" where
  "startPage_of req = field_or 1 (body_start_page req)"

definition maxPages_of :: "request \<Rightarrow> jsnum" where
  "maxPages_of req = field_or 0 (body_max_pages req)"

text \<open>\<^verbatim>\<open>String(req.body?.name ?? "").trim()\<close>.\<close>

definition name_of :: "request \<Rightarrow> string" where
  "name_of req = trim (case body_name req of None \<Rightarrow> [] | Some s \<Rightarrow> s)"

definition cfg_of :: "env \<Rightarrow> request \<Rightarrow> cfg" where
  "cfg_of ev req =
     \<lparr>c_token = getBearerToken req ev,
      c_perPage = fin_val (perPage_of req),
      c_name = name_of req,
      c_maxPages = fin_val (maxPages_of req),
      c_minIntervalMs = minIntervalMs (fin_val (rpm_of req)),
      c_baseDir = baseDir ev,
      c_num_str = num_str ev\<rparr>"

text \<open>
  The loop starts after \<^verbatim>\<open>fs.mkdir(baseDir, { recursive: true })\<close> with
  \<^verbatim>\<open>page = startPage\<close>, \<^verbatim>\<open>fetchedPages = 0\<close>, \<^verbatim>\<open>lastRequestAt = 0\<close>.
\<close>

definition init_state :: "env \<Rightarrow> rat \<Rightarrow> state" where
  "init_state ev startPage =
     \<lparr>page = startPage, fetchedPages = 0, lastRequestAt = 0, clock = start_clock ev,
      trace = [Mkdir (baseDir ev)]\<rparr>"

text \<open>What follows the loop: the manifest, its write, the reply.\<close>

definition manifest :: "cfg \<Rightarrow> rat \<Rightarrow> state \<Rightarrow> meta" where
  "manifest c startPage st =
     \<lparr>m_name = (if c_name c \<noteq> [] then Some (c_name c) else None),
      m_per_page = c_perPage c,
      m_start_page = startPage,
      m_fetched_pages = fetchedPages st,
      m_generated_at = clock st\<rparr>"

definition metaPath :: "cfg \<Rightarrow> path" where
  "metaPath c = path_join (c_baseDir c) ''meta.json''"

definition finish :: "env \<Rightarrow> cfg \<Rightarrow> rat \<Rightarrow> state \<Rightarrow> result \<times> event list" where
  "finish ev c startPage st =
     (let m = manifest c startPage st in
      if meta_write_ok ev
      then (Replied (Reply 200 (OkBody (c_baseDir c) m)),
            trace st @ [WriteFile (metaPath c) (MetaData m)])
      else (Forwarded (WriteError (metaPath c)), trace st @ [WriteFailed (metaPath c)]))"

text \<open>How the handler leaves the loop.\<close>

definition conclude :: "env \<Rightarrow> cfg \<Rightarrow> rat \<Rightarrow> outcome \<times> state \<Rightarrow> result \<times> event list" where
  "conclude ev c startPage r =
     (case r of
        (Break, st) \<Rightarrow> finish ev c startPage st
      | (Return x, st) \<Rightarrow> (Replied x, trace st)
      | (Throw x, st) \<Rightarrow> (Forwarded x, trace st)
      | (_, st) \<Rightarrow> (Unfinished, trace st))"

text \<open>The body of the handler after validation.\<close>

definition run :: "env \<Rightarrow> cfg \<Rightarrow> rat \<Rightarrow> step list \<Rightarrow> result \<times> event list" where
  "run ev c startPage steps =
     (if \<not> mkdir_ok ev then (Forwarded (MkdirError (baseDir ev)), [])
      else conclude ev c startPage (loop c (init_state ev startPage) steps))"

text \<open>
  \<^verbatim>\<open>router.post("/strava/activities/extract-all", ...)\<close>: the result and the effects
  of one request, against a script of upstream answers.
\<close>

definition handler :: "env \<Rightarrow> request \<Rightarrow> step list \<Rightarrow> result \<times> event list" where
  "handler ev req steps =
     (if getBearerToken req ev = [] then
        (Replied (Reply 400 (ErrorBody
           ''Missing Strava token. Set STRAVA_ACCESS_TOKEN in .env or send Authorization: Bearer <token>.'')), [])
      else if \<not> isFinite (rpm_of req) \<or> num_less (rpm_of req) 1 then
        (Replied (Reply 400 (ErrorBody ''`rpm` must be >= 1'')), [])
      else if \<not> isFinite (perPage_of req) \<or> num_less (perPage_of req) 1
              \<or> num_greater (perPage_of req) 200 then
        (Replied (Reply 400 (ErrorBody ''`per_page` must be 1..200'')), [])
      else if \<not> isFinite (startPage_of req) \<or> num_less (startPage_of req) 1 then
        (Replied (Reply 400 (ErrorBody ''`start_page` must be >= 1'')), [])
      else if \<not> isFinite (maxPages_of req) \<or> num_less (maxPages_of req) 0 then
        (Replied (Reply 400 (ErrorBody ''`max_pages` must be >= 0'')), [])
      else
        run ev (cfg_of ev req) (fin_val (startPage_of req)) steps)"

text \<open>
  The error middleware of \<^verbatim>\<open>src/index.js\<close>, for an exception passed to \<^verbatim>\<open>next\<close> before
  any header was sent.
\<close>

definition error_middleware :: "exn \<Rightarrow> reply" where
  "error_middleware err = Reply 500 (ErrorBody ''Internal server error'')"

text \<open>What the caller receives.\<close>

definition caller_sees :: "result \<Rightarrow> reply option" where
  "caller_sees r =
     (case r of
        Replied x \<Rightarrow> Some x
      | Forwarded err \<Rightarrow> Some (error_middleware err)
      | Unfinished \<Rightarrow> None)"

section \<open>Reading a trace\<close>

text \<open>The paths of the page files written, in order.\<close>

definition page_write_of :: "event \<Rightarrow> path list" where
  "page_write_of x = (case x of WriteFile p (PageData r) \<Rightarrow> [p] | _ \<Rightarrow> [])"

definition page_writes :: "event list \<Rightarrow> path list" where
  "page_writes tr = concat (map page_write_of tr)"

text \<open>The manifests written.\<close>

definition meta_write_of :: "event \<Rightarrow> (path \<times> meta) list" where
  "meta_write_of x = (case x of WriteFile p (MetaData m) \<Rightarrow> [(p, m)] | _ \<Rightarrow> [])"

definition meta_writes :: "event list \<Rightarrow> (path \<times> meta) list" where
  "meta_writes tr = concat (map meta_write_of tr)"

text \<open>Every successful write, and the files on disk they leave (a later write wins).\<close>

definition write_of :: "event \<Rightarrow> (path \<times> content) list" where
  "write_of x = (case x of WriteFile p d \<Rightarrow> [(p, d)] | _ \<Rightarrow> [])"

definition writes :: "event list \<Rightarrow> (path \<times> content) list" where
  "writes tr = concat (map write_of tr)"

definition disk :: "event list \<Rightarrow> (path \<rightharpoonup> content)" where
  "disk tr = map_of (rev (writes tr))"

text \<open>The send times of the requests, and the page numbers they ask for.\<close>

definition send_time_of :: "event \<Rightarrow> int list" where
  "send_time_of x = (case x of Request t tok pg pp \<Rightarrow> [t] | _ \<Rightarrow> [])"

definition send_times :: "event list \<Rightarrow> int list" where
  "send_times tr = concat (map send_time_of tr)"

definition requested_page_of :: "event \<Rightarrow> rat list" where
  "requested_page_of x = (case x of Request t tok pg pp \<Rightarrow> [pg] | _ \<Rightarrow> [])"

definition requested_pages :: "event list \<Rightarrow> rat list" where
  "requested_pages tr = concat (map requested_page_of tr)"


text \<open>
  Reading a trace with the current page number \<open>p\<close>: every request asks for the
  current page; a page write stores the current page, and only after it the current page
  is the incremented one.
\<close>

fun follows :: "cfg \<Rightarrow> rat \<Rightarrow> event list \<Rightarrow> bool" where
  "follows c p [] = True"
| "follows c p (Request t tok q pp # tr) = (q = p \<and> follows c p tr)"
| "follows c p (WriteFile f (PageData r) # tr) = (f = outPath c p \<and> follows c (js_incr p) tr)"
| "follows c p (x # tr) = follows c p tr"

text \<open>The invariant of the loop that relates its counters to the files written.\<close>

definition counted :: "cfg \<Rightarrow> rat \<Rightarrow> state \<Rightarrow> bool" where
  "counted c sp st \<longleftrightarrow>
     page st = (js_incr ^^ fetchedPages st) sp \<and>
     page_writes (trace st) = map (\<lambda>k. outPath c ((js_incr ^^ k) sp)) [0..<fetchedPages st] \<and>
     follows c sp (trace st) \<and>
     meta_writes (trace st) = []"

text \<open>
  The numeric fields that pass the handler's checks: a finite \<open>rpm\<close> of at least 1, a
  \<open>per_page\<close> from 1 to 200, a \<open>start_page\<close> of at least 1, a \<open>max_pages\<close> of at
  least 0.
\<close>

definition valid_fields :: "request \<Rightarrow> bool" where
  "valid_fields req \<longleftrightarrow>
     (case rpm_of req of Fin r \<Rightarrow> 1 \<le> r | _ \<Rightarrow> False) \<and>
     (case perPage_of req of Fin p \<Rightarrow> 1 \<le> p \<and> p \<le> 200 | _ \<Rightarrow> False) \<and>
     (case startPage_of req of Fin s \<Rightarrow> 1 \<le> s | _ \<Rightarrow> False) \<and>
     (case maxPages_of req of Fin m \<Rightarrow> 0 \<le> m | _ \<Rightarrow> False)"


text \<open>The upstream answered 429.\<close>

definition throttled :: "step \<Rightarrow> bool" where
  "throttled e = (case response e of Resp status h d \<Rightarrow> status = 429 | NetFail \<Rightarrow> False)"

text \<open>
  The request passes validation, the directory exists, and after the upstream answers
  \<open>pre\<close> the loop is in state \<open>st\<close>, about to send its next request.
\<close>

definition reaches :: "env \<Rightarrow> request \<Rightarrow> step list \<Rightarrow> state \<Rightarrow> bool" where
  "reaches ev req pre st \<longleftrightarrow>
     getBearerToken req ev \<noteq> [] \<and> valid_fields req \<and> mkdir_ok ev \<and>
     loop (cfg_of ev req) (init_state ev (fin_val (startPage_of req))) pre = (Exhausted, st)"

text \<open>\<^verbatim>\<open>Array.isArray\<close>.\<close>

definition isArray :: "json \<Rightarrow> bool" where
  "isArray d = (case d of JArr xs \<Rightarrow> True | _ \<Rightarrow> False)"

text \<open>The upstream answered 2xx with the empty array.\<close>

definition end_of_data :: "step \<Rightarrow> bool" where
  "end_of_data e =
     (case response e of
        Resp status h d \<Rightarrow> 200 \<le> status \<and> status < 300 \<and> d = JArr []
      | NetFail \<Rightarrow> False)"

text \<open>The file name of a page up to the page number.\<close>

definition stem :: "cfg \<Rightarrow> string" where
  "stem c = (if c_name c \<noteq> [] then c_name c @ ''_page_'' else ''page_'')"


section \<open>A concrete environment\<close>

text \<open>Decimal digits of a natural number, as the runtime prints an integer.\<close>

fun dec :: "nat \<Rightarrow> string" where
  "dec n = (if n < 10 then [''0123456789'' ! n] else dec (n div 10) @ [''0123456789'' ! (n mod 10)])"

declare dec.simps [simp del]

definition dec_str :: "rat \<Rightarrow> string" where
  "dec_str q = dec (nat \<lfloor>q\<rfloor>)"

definition example_env :: env where
  "example_env =
     \<lparr>env_token = Some ''secret'', cwd = [''srv'', ''runlytics''], num_str = dec_str,
      mkdir_ok = True, meta_write_ok = True, start_clock = 1700000000000\<rparr>"

definition example_req :: request where
  "example_req =
     \<lparr>authorization = None, body_rpm = None, body_per_page = None, body_start_page = None,
      body_max_pages = None, body_name = None\<rparr>"

definition answer :: "upstream \<Rightarrow> step" where
  "answer r = \<lparr>response = r, lag = 0, latency = 250, write_ok = True\<rparr>"

text \<open>Two pages fetched and written, and the state of the loop after them.\<close>

definition two_pages :: "step list" where
  "two_pages = [answer (Resp 200 None (JArr [JNum 1])), answer (Resp 200 None (JArr [JNum 2]))]"

definition after_two_pages :: state where
  "after_two_pages =
     \<lparr>page = 3, fetchedPages = 2, lastRequestAt = 1700000004000, clock = 1700000004250,
      trace =
        [Mkdir [''srv'', ''runlytics'', ''data-scripting'', ''strava''],
         Request 1700000000000 ''secret'' 1 200,
         WriteFile [''srv'', ''runlytics'', ''data-scripting'', ''strava'', ''page_1.json'']
           (PageData [JNum 1]),
         Sleep 3750,
         Request 1700000004000 ''secret'' 2 200,
         WriteFile [''srv'', ''runlytics'', ''data-scripting'', ''strava'', ''page_2.json'']
           (PageData [JNum 2])]\<rparr>"

section \<open>Lemmas about doubles\<close>

lemma round_even_int [simp]: "round_even (of_int z) = z"
  by (simp add: round_even_def)

lemma round_even_numeral [simp]: "round_even (numeral n) = numeral n"
  using round_even_int [of "numeral n"] by simp


lemma floorlog_pos: "0 < n \<Longrightarrow> 0 < floorlog 2 n"
  using floorlog_eq_zero_iff [of 2 n] by auto

lemma log2_floor_bounds:
  assumes "1 \<le> q"
  shows "0 \<le> log2_floor q" and "2 ^ nat (log2_floor q) \<le> q" and "q < 2 ^ (nat (log2_floor q) + 1)"
proof -
  define n where "n = nat \<lfloor>q\<rfloor>"
  define w where "w = floorlog 2 n"
  from assms have n: "0 < n" by (simp add: n_def)
  from floorlog_bounds [OF n, of 2]
  have b: "2 ^ (w - 1) \<le> n" "n < 2 ^ w" by (simp_all add: w_def)
  from n have f: "0 < w" unfolding w_def by (rule floorlog_pos)
  have l: "log2_floor q = int w - 1" using assms by (simp add: log2_floor_def n_def w_def)
  then have k: "nat (log2_floor q) = w - 1" using f by simp
  show "0 \<le> log2_floor q" using l f by simp
  have nq: "(of_nat n :: rat) \<le> q" using assms by (simp add: n_def)
  have "(of_nat (2 ^ (w - 1)) :: rat) \<le> of_nat n" using b(1) by (simp only: of_nat_le_iff)
  then have "(2::rat) ^ (w - 1) \<le> of_nat n" by simp
  then have "(2::rat) ^ (w - 1) \<le> q" using nq by (rule order_trans)
  then show "2 ^ nat (log2_floor q) \<le> q" by (simp only: k)
  have "Suc n \<le> 2 ^ w" using b(2) by simp
  then have "(of_nat (Suc n) :: rat) \<le> of_nat (2 ^ w)" by (simp only: of_nat_le_iff)
  then have s: "(of_nat (Suc n) :: rat) \<le> 2 ^ w" by simp
  have "q < of_int (\<lfloor>q\<rfloor> + 1)" by (rule floor_correct [THEN conjunct2])
  moreover have "\<lfloor>q\<rfloor> + 1 = int (Suc n)" using assms by (simp add: n_def)
  ultimately have "q < of_nat (Suc n)" by simp
  then have "q < 2 ^ w" using s by (rule less_le_trans)
  moreover have "nat (log2_floor q) + 1 = w" using k f by simp
  ultimately show "q < 2 ^ (nat (log2_floor q) + 1)" by (simp only:)
qed

lemma log2_floor_eq:
  assumes "2 ^ e \<le> q" and "q < 2 ^ (e + 1)"
  shows "log2_floor q = int e"
proof -
  have "(1::rat) \<le> 2 ^ e" by (rule one_le_power) simp
  then have q: "1 \<le> q" using assms(1) by (rule order_trans)
  note b = log2_floor_bounds [OF q]
  define k where "k = nat (log2_floor q)"
  from b(2) assms(2) have "(2::rat) ^ k < 2 ^ (e + 1)" unfolding k_def by (rule le_less_trans)
  then have 1: "k < e + 1" by (rule power_less_imp_less_exp [rotated]) simp
  from assms(1) b(3) have "(2::rat) ^ e < 2 ^ (k + 1)" unfolding k_def by (rule le_less_trans)
  then have 2: "e < k + 1" by (rule power_less_imp_less_exp [rotated]) simp
  from 1 2 have "k = e" by simp
  with b(1) show ?thesis by (simp add: k_def)
qed

lemma log2_floor_less:
  assumes "1 \<le> q" and "q < 2 ^ m"
  shows "log2_floor q < int m"
proof -
  note b = log2_floor_bounds [OF assms(1)]
  define k where "k = nat (log2_floor q)"
  from b(2) assms(2) have "(2::rat) ^ k < 2 ^ m" unfolding k_def by (rule le_less_trans)
  then have "k < m" by (rule power_less_imp_less_exp [rotated]) simp
  with b(1) show ?thesis by (simp add: k_def)
qed


lemma powi_nonpos:
  fixes j :: int
  assumes "j \<le> 0"
  shows "(2::rat) powi j = 1 / 2 ^ nat (- j)"
proof (cases "j = 0")
  case True
  then show ?thesis by simp
next
  case False
  with assms have "\<not> 0 \<le> j" by simp
  then have "(2::rat) powi j = inverse 2 ^ nat (- j)" by (simp only: power_int_def if_False)
  also have "\<dots> = 1 / 2 ^ nat (- j)" by (simp add: power_one_over inverse_eq_divide)
  finally show ?thesis .
qed

lemma ulp_fraction:
  assumes "log2_floor q \<le> 52"
  shows "ulp q = 1 / 2 ^ nat (52 - max (log2_floor q) (- 1022))"
proof -
  have "max (log2_floor q) (- 1022) - 52 \<le> 0" using assms by simp
  from powi_nonpos [OF this] show ?thesis
    by (simp only: ulp_def minus_diff_eq)
qed

lemma nearest_exact:
  assumes "log2_floor q \<le> 52" and "q = of_int z"
  shows "nearest q = q"
proof -
  define k where "k = nat (52 - max (log2_floor q) (- 1022))"
  have u: "ulp q = 1 / 2 ^ k" unfolding k_def by (rule ulp_fraction [OF assms(1)])
  have "q / ulp q = q * 2 ^ k" by (simp add: u)
  also have "\<dots> = of_int (z * 2 ^ k)" by (simp add: assms(2))
  finally have "round_even (q / ulp q) = z * 2 ^ k" by (simp only: round_even_int)
  then have "nearest q = of_int (z * 2 ^ k) * (1 / 2 ^ k)" by (simp only: nearest_def u)
  also have "\<dots> = of_int z" by simp
  finally show ?thesis by (simp only: assms(2))
qed

lemma nearest_2_53: "nearest 9007199254740992 = 9007199254740992"
proof -
  have l: "log2_floor 9007199254740992 = int 53"
    by (rule log2_floor_eq) simp_all
  have u: "ulp 9007199254740992 = 2" by (simp add: ulp_def l)
  show ?thesis by (simp add: nearest_def u)
qed

lemma nearest_nat:
  assumes "0 < n" and "n \<le> 2 ^ 53"
  shows "nearest (of_nat n) = of_nat n"
proof (cases "n = 2 ^ 53")
  case True
  then have "(of_nat n :: rat) = 9007199254740992" by simp
  then show ?thesis by (simp only: nearest_2_53)
next
  case False
  with assms(2) have lt: "n < 2 ^ 53" by simp
  have q: "(1::rat) \<le> of_nat n" using assms(1) by simp
  have "(of_nat n :: rat) < of_nat (2 ^ 53)" using lt by (simp only: of_nat_less_iff)
  then have "(of_nat n :: rat) < 2 ^ 53" by simp
  with q have "log2_floor (of_nat n) < int 53" by (rule log2_floor_less)
  then have "log2_floor (rat_of_nat n) \<le> 52" by simp
  then show ?thesis by (rule nearest_exact [where z = "int n"]) simp
qed

lemma to_double_nat:
  assumes "n \<le> 2 ^ 53"
  shows "to_double (of_nat n) = Fin (of_nat n)"
proof (cases "n = 0")
  case True
  then show ?thesis by (simp add: to_double_def)
next
  case False
  then have p: "0 < n" by simp
  have "(of_nat n :: rat) \<le> of_nat (2 ^ 53)" using assms by (simp only: of_nat_le_iff)
  then have "(of_nat n :: rat) \<le> 2 ^ 53" by simp
  also have "\<dots> < 2 ^ 1024" by (rule power_strict_increasing) simp_all
  finally have o: "\<not> (2::rat) ^ 1024 \<le> of_nat n" by (simp only: not_le)
  have z: "(of_nat n :: rat) \<noteq> 0" "(0::rat) < of_nat n" using p by simp_all
  show ?thesis
    by (simp only: to_double_def nearest_nat [OF p assms] z o if_True if_False)
qed




lemma nearest_tie_53: "nearest 9007199254740993 = 9007199254740992"
proof -
  have l: "log2_floor 9007199254740993 = int 53"
    by (rule log2_floor_eq) simp_all
  have u: "ulp 9007199254740993 = 2" by (simp add: ulp_def l)
  have f: "\<lfloor>(9007199254740993::rat) / 2\<rfloor> = 4503599627370496"
    by (rule floor_unique) simp_all
  have "round_even (9007199254740993 / 2) = 4503599627370496"
    unfolding round_even_def Let_def f by simp
  then show ?thesis by (simp add: nearest_def u)
qed


lemma to_double_tie_53: "to_double 9007199254740993 = Fin 9007199254740992"
proof -
  have "(9007199254740992::rat) < 2 ^ 54" by simp
  also have "\<dots> < 2 ^ 1024" by (rule power_strict_increasing) simp_all
  finally have "\<not> (2::rat) ^ 1024 \<le> 9007199254740992" by (simp only: not_le)
  then show ?thesis by (simp add: to_double_def nearest_tie_53 del: power_numeral)
qed

lemma js_incr_nat:
  assumes "n < 2 ^ 53"
  shows "js_incr (of_nat n) = of_nat (Suc n)"
proof -
  from assms have "Suc n \<le> 2 ^ 53" by simp
  from to_double_nat [OF this] have "to_double (of_nat n + 1) = Fin (of_nat (Suc n))"
    by (simp add: add.commute)
  then show ?thesis by (simp add: js_incr_def)
qed

lemma js_incr_funpow:
  "a + k \<le> 2 ^ 53 \<Longrightarrow> (js_incr ^^ k) (of_nat a) = of_nat (a + k)"
proof (induction k)
  case 0
  then show ?case by simp
next
  case (Suc k)
  then have "(js_incr ^^ k) (of_nat a) = of_nat (a + k)" by simp
  then have "(js_incr ^^ Suc k) (of_nat a) = js_incr (of_nat (a + k))" by (simp only: funpow.simps o_apply)
  moreover from Suc.prems have "a + k < 2 ^ 53" by simp
  ultimately show ?case by (simp only: js_incr_nat add_Suc_right)
qed

lemma js_incr_2_53: "js_incr 9007199254740992 = 9007199254740992"
  using to_double_tie_53 by (simp add: js_incr_def)

lemma js_incr_small [simp]: "js_incr 1 = 2" "js_incr 2 = 3" "js_incr 3 = 4"
  using js_incr_nat [of 1] js_incr_nat [of 2] js_incr_nat [of 3] by simp_all

lemma minIntervalMs_15 [simp]: "minIntervalMs 15 = 4000"
  using to_double_nat [of 4000] by (simp add: minIntervalMs_def)

lemma nearest_tie_frac: "nearest (9007199254740993 / 4503599627370496) = 2"
proof -
  define q :: rat where "q = 9007199254740993 / 4503599627370496"
  have l: "log2_floor q = int 1"
    by (rule log2_floor_eq) (simp_all add: q_def)
  then have "log2_floor q \<le> 52" by simp
  from ulp_fraction [OF this] have u: "ulp q = 1 / 2 ^ 51" by (simp add: l)
  have v: "q / (1 / 2 ^ 51) = 9007199254740993 / 2" by (simp add: q_def)
  have f: "\<lfloor>(9007199254740993::rat) / 2\<rfloor> = 4503599627370496"
    by (rule floor_unique) simp_all
  have "round_even (9007199254740993 / 2) = 4503599627370496"
    unfolding round_even_def Let_def f by simp
  then have "of_int (round_even (q / (1 / 2 ^ 51))) * (1 / 2 ^ 51) = (2::rat)"
    unfolding v by simp
  then have "nearest q = 2" by (simp only: nearest_def u)
  then show ?thesis by (simp only: q_def)
qed

lemma js_incr_frac: "js_incr (4503599627370497 / 4503599627370496) = 2"
proof -
  have e: "(4503599627370497 / 4503599627370496 :: rat) + 1 = 9007199254740993 / 4503599627370496"
    by simp
  have "(2::rat) < 2 ^ 2" by simp
  also have "\<dots> < 2 ^ 1024" by (rule power_strict_increasing) simp_all
  finally have "\<not> (2::rat) ^ 1024 \<le> 2" by (simp only: not_le)
  then have "to_double (9007199254740993 / 4503599627370496) = Fin 2"
    by (simp add: to_double_def nearest_tie_frac del: power_numeral)
  then show ?thesis unfolding js_incr_def e by simp
qed

section \<open>Lemmas about traces and the loop\<close>

lemma of_char_eq_code:
  "(of_char ch :: nat) = of_char d \<longleftrightarrow> ch = d"
  by (rule of_char_eq_iff)

lemma page_writes_append [simp]: "page_writes (xs @ ys) = page_writes xs @ page_writes ys"
  by (simp add: page_writes_def)
lemma meta_writes_append [simp]: "meta_writes (xs @ ys) = meta_writes xs @ meta_writes ys"
  by (simp add: meta_writes_def)
lemma writes_append [simp]: "writes (xs @ ys) = writes xs @ writes ys"
  by (simp add: writes_def)
lemma send_times_append [simp]: "send_times (xs @ ys) = send_times xs @ send_times ys"
  by (simp add: send_times_def)
lemma requested_pages_append [simp]: "requested_pages (xs @ ys) = requested_pages xs @ requested_pages ys"
  by (simp add: requested_pages_def)

lemma readers_Nil [simp]:
  "page_writes [] = []" "meta_writes [] = []" "writes [] = []" "send_times [] = []" "requested_pages [] = []"
  by (simp_all add: page_writes_def meta_writes_def writes_def send_times_def requested_pages_def)

lemma readers_Sleep [simp]:
  "page_writes [Sleep d] = []" "meta_writes [Sleep d] = []" "writes [Sleep d] = []"
  "send_times [Sleep d] = []" "requested_pages [Sleep d] = []"
  by (simp_all add: page_writes_def meta_writes_def writes_def send_times_def requested_pages_def
      page_write_of_def meta_write_of_def write_of_def send_time_of_def requested_page_of_def)

lemma readers_SleepInfinity [simp]:
  "page_writes [SleepInfinity] = []" "meta_writes [SleepInfinity] = []" "writes [SleepInfinity] = []"
  "send_times [SleepInfinity] = []" "requested_pages [SleepInfinity] = []"
  by (simp_all add: page_writes_def meta_writes_def writes_def send_times_def requested_pages_def
      page_write_of_def meta_write_of_def write_of_def send_time_of_def requested_page_of_def)

lemma readers_sleep_event [simp]:
  "page_writes [sleep_event ms] = []" "meta_writes [sleep_event ms] = []"
  "writes [sleep_event ms] = []" "send_times [sleep_event ms] = []"
  "requested_pages [sleep_event ms] = []"
  by (cases ms; simp add: sleep_event_def)+

lemma backoff_fields [simp]:
  "page (backoff ms st) = page st" "fetchedPages (backoff ms st) = fetchedPages st"
  "lastRequestAt (backoff ms st) = lastRequestAt st"
  "trace (backoff ms st) = trace st @ [sleep_event ms]"
  "clock (backoff ms st) = clock st"
  by (simp_all add: backoff_def)

lemma readers_Mkdir [simp]:
  "page_writes [Mkdir d] = []" "meta_writes [Mkdir d] = []" "writes [Mkdir d] = []"
  "send_times [Mkdir d] = []" "requested_pages [Mkdir d] = []"
  by (simp_all add: page_writes_def meta_writes_def writes_def send_times_def requested_pages_def
      page_write_of_def meta_write_of_def write_of_def send_time_of_def requested_page_of_def)

lemma readers_Request [simp]:
  "page_writes [Request t tok pg pp] = []" "meta_writes [Request t tok pg pp] = []"
  "writes [Request t tok pg pp] = []"
  "send_times [Request t tok pg pp] = [t]" "requested_pages [Request t tok pg pp] = [pg]"
  by (simp_all add: page_writes_def meta_writes_def writes_def send_times_def requested_pages_def
      page_write_of_def meta_write_of_def write_of_def send_time_of_def requested_page_of_def)

lemma readers_WriteFailed [simp]:
  "page_writes [WriteFailed p] = []" "meta_writes [WriteFailed p] = []" "writes [WriteFailed p] = []"
  "send_times [WriteFailed p] = []" "requested_pages [WriteFailed p] = []"
  by (simp_all add: page_writes_def meta_writes_def writes_def send_times_def requested_pages_def
      page_write_of_def meta_write_of_def write_of_def send_time_of_def requested_page_of_def)

lemma readers_WritePage [simp]:
  "page_writes [WriteFile p (PageData r)] = [p]" "meta_writes [WriteFile p (PageData r)] = []"
  "writes [WriteFile p d] = [(p, d)]"
  "send_times [WriteFile p d] = []" "requested_pages [WriteFile p d] = []"
  by (simp_all add: page_writes_def meta_writes_def writes_def send_times_def requested_pages_def
      page_write_of_def meta_write_of_def write_of_def send_time_of_def requested_page_of_def)

lemma readers_WriteMeta [simp]:
  "page_writes [WriteFile p (MetaData m)] = []" "meta_writes [WriteFile p (MetaData m)] = [(p, m)]"
  by (simp_all add: page_writes_def meta_writes_def page_write_of_def meta_write_of_def)

lemma sleep_fields [simp]:
  "page (sleep ms st) = page st" "fetchedPages (sleep ms st) = fetchedPages st"
  "lastRequestAt (sleep ms st) = lastRequestAt st"
  "trace (sleep ms st) = trace st @ [Sleep ms]"
  "clock (sleep ms st) = clock st"
  by (simp_all add: sleep_def)

lemma send_fields [simp]:
  "page (send c e st) = page st" "fetchedPages (send c e st) = fetchedPages st"
  by (simp_all add: send_def Let_def)

lemma send_trace:
  "trace (send c e st) =
     trace st @ (if waitMs (lastRequestAt st) (c_minIntervalMs c) (clock st) \<noteq> 0
                 then [Sleep (waitMs (lastRequestAt st) (c_minIntervalMs c) (clock st))] else [])
       @ [Request (lastRequestAt (send c e st)) (c_token c) (page st) (c_perPage c)]"
  by (simp add: send_def Let_def)

lemma send_readers [simp]:
  "page_writes (trace (send c e st)) = page_writes (trace st)"
  "meta_writes (trace (send c e st)) = meta_writes (trace st)"
  "writes (trace (send c e st)) = writes (trace st)"
  "requested_pages (trace (send c e st)) = requested_pages (trace st) @ [page st]"
  "send_times (trace (send c e st)) = send_times (trace st) @ [lastRequestAt (send c e st)]"
  by (simp_all add: send_trace)

lemma iteration_not_Exhausted: "fst (iteration c e st) \<noteq> Exhausted"
  by (simp add: iteration_def Let_def split: upstream.splits json.splits)

lemma iteration_Exhausted [dest!]: "iteration c e st = (Exhausted, st') \<Longrightarrow> False"
  using iteration_not_Exhausted [of c e st] by simp

lemma loop_Exhausted_not_reached:
  "loop c st es = (Exhausted, st') \<Longrightarrow> \<not> reached c st'"
proof (induction es arbitrary: st)
  case Nil
  then show ?case by (simp split: if_splits)
next
  case (Cons e es)
  then show ?case
    by (auto split: if_splits prod.splits outcome.splits)
qed

lemma loop_append:
  "loop c st pre = (Exhausted, st') \<Longrightarrow> loop c st (pre @ rest) = loop c st' rest"
proof (induction pre arbitrary: st)
  case Nil
  then show ?case by (cases rest) (simp_all split: if_splits)
next
  case (Cons e es)
  then show ?case
    by (auto split: if_splits prod.splits outcome.splits)
qed

lemma follows_append:
  "follows c p (xs @ ys) \<longleftrightarrow>
     follows c p xs \<and> follows c ((js_incr ^^ length (page_writes xs)) p) ys"
proof (induction c p xs rule: follows.induct)
  case (3 c p f r tr)
  have "page_writes (WriteFile f (PageData r) # tr) = f # page_writes tr"
    by (simp add: page_writes_def page_write_of_def)
  with 3 show ?case by (simp add: funpow_swap1)
qed (simp_all add: page_writes_def page_write_of_def)

lemma follows_sleep_event [simp]: "follows c p [sleep_event ms] = True"
  by (cases ms) (simp_all add: sleep_event_def)


lemma counted_send: "counted c sp st \<Longrightarrow> counted c sp (send c e st)"
  unfolding counted_def
  by (auto simp: send_trace follows_append)

lemma counted_sleep: "counted c sp st \<Longrightarrow> counted c sp (sleep ms st)"
  unfolding counted_def by (simp add: follows_append)

lemma counted_backoff: "counted c sp st \<Longrightarrow> counted c sp (backoff ms st)"
  unfolding counted_def by (simp add: follows_append)

lemma counted_iteration:
  assumes "counted c sp st" and "iteration c e st = (out, st')"
  shows "counted c sp st'"
proof -
  have s: "counted c sp (send c e st)" using assms(1) by (rule counted_send)
  show ?thesis
    using assms(2) s counted_backoff [OF s]
    by (auto simp: iteration_def Let_def counted_def follows_append
        split: upstream.splits json.splits if_splits)
qed

lemma counted_loop:
  "counted c sp st \<Longrightarrow> loop c st es = (out, st') \<Longrightarrow> counted c sp st'"
proof (induction es arbitrary: st)
  case Nil
  then show ?case by (simp split: if_splits)
next
  case (Cons e es)
  show ?case
  proof (cases "reached c st")
    case True
    with Cons.prems show ?thesis by simp
  next
    case False
    obtain o1 s1 where it: "iteration c e st = (o1, s1)" by (cases "iteration c e st")
    have c1: "counted c sp s1" using Cons.prems(1) it by (rule counted_iteration)
    show ?thesis
    proof (cases "o1 = Continue")
      case True
      with False it Cons.prems(2) have "loop c s1 es = (out, st')" by simp
      with c1 show ?thesis by (rule Cons.IH)
    next
      case False
      with \<open>\<not> reached c st\<close> it Cons.prems(2) have "st' = s1"
        by (cases o1) simp_all
      with c1 show ?thesis by simp
    qed
  qed
qed

lemma counted_init: "counted c sp (init_state ev sp)"
  by (simp add: counted_def init_state_def)

text \<open>The definitions a concrete run unfolds.\<close>

lemmas eval_defs = handler_def run_def conclude_def finish_def manifest_def metaPath_def
  init_state_def cfg_of_def rpm_of_def perPage_of_def startPage_of_def maxPages_of_def name_of_def
  field_or_def isFinite_def getBearerToken_def bearer_rest_def trim_def is_space_def
  iteration_def send_def sleep_def waitMs_def timer_delay_def reached_def
  outPath_def filename_def path_join_def baseDir_def
  example_env_def example_req_def answer_def dec_str_def is_digit_def digits_val_def digit_val_def
  Let_def

lemma dec_small [simp]: "n < 10 \<Longrightarrow> dec n = [''0123456789'' ! n]"
  by (simp add: dec.simps)

lemma run_one_page: "handler example_env example_req
   [answer (Resp 200 None (JArr [JNum 1])), answer (Resp 200 None (JArr []))]
  = (Replied
   (Reply 200
     (OkBody [''srv'', ''runlytics'', ''data-scripting'', ''strava'']
       \<lparr>m_name = None, m_per_page = 200, m_start_page = 1,
          m_fetched_pages = 1, m_generated_at = 1700000004250\<rparr>)),
  [Mkdir [''srv'', ''runlytics'', ''data-scripting'', ''strava''],
   Request 1700000000000 ''secret'' 1 200,
   WriteFile
    [''srv'', ''runlytics'', ''data-scripting'', ''strava'',
     ''page_1.json'']
    (PageData [JNum 1]),
   Sleep 3750, Request 1700000004000 ''secret'' 2 200,
   WriteFile
    [''srv'', ''runlytics'', ''data-scripting'', ''strava'', ''meta.json'']
    (MetaData
      \<lparr>m_name = None, m_per_page = 200, m_start_page = 1,
         m_fetched_pages = 1, m_generated_at = 1700000004250\<rparr>)])"
  by (simp add: eval_defs)

lemma loop_outcome:
  "loop c st es = (out, st') \<Longrightarrow>
     out = Exhausted \<or> (out = Break \<and> reached c st') \<or>
     (\<exists>e sm. e \<in> set es \<and> iteration c e sm = (out, st') \<and> out \<noteq> Continue)"
proof (induction es arbitrary: st)
  case Nil
  then show ?case by (simp split: if_splits)
next
  case (Cons e es)
  show ?case
  proof (cases "reached c st")
    case True
    with Cons.prems show ?thesis by simp
  next
    case False
    obtain o1 s1 where it: "iteration c e st = (o1, s1)" by (cases "iteration c e st")
    show ?thesis
    proof (cases "o1 = Continue")
      case True
      with False it Cons.prems have "loop c s1 es = (out, st')" by simp
      from Cons.IH [OF this] show ?thesis by auto
    next
      case nc: False
      with False it Cons.prems have "out = o1 \<and> st' = s1"
        by (cases o1) simp_all
      with it nc show ?thesis by auto
    qed
  qed
qed

lemma iteration_Return_status:
  "iteration c e st = (Return (Reply s b), st') \<Longrightarrow> s = 401 \<or> s = 502"
  by (auto simp: iteration_def Let_def split: upstream.splits json.splits if_splits)

lemma loop_Return_status:
  "loop c st es = (Return (Reply s b), st') \<Longrightarrow> s = 401 \<or> s = 502"
  using loop_outcome [of c st es "Return (Reply s b)" st'] iteration_Return_status
  by blast

lemma handler_valid:
  "getBearerToken req ev \<noteq> [] \<Longrightarrow> valid_fields req \<Longrightarrow>
     handler ev req steps = run ev (cfg_of ev req) (fin_val (startPage_of req)) steps"
  by (auto simp: handler_def valid_fields_def isFinite_def split: jsnum.splits)

lemma handler_invalid:
  "getBearerToken req ev = [] \<or> \<not> valid_fields req \<Longrightarrow>
     \<exists>msg. handler ev req steps = (Replied (Reply 400 (ErrorBody msg)), [])"
  by (auto simp: handler_def valid_fields_def isFinite_def split: jsnum.splits)

lemma run_Replied_status:
  "run ev c sp steps = (Replied (Reply s b), tr) \<Longrightarrow> s = 200 \<or> s = 401 \<or> s = 502"
  by (auto simp: run_def conclude_def finish_def Let_def
      split: if_splits prod.splits outcome.splits dest: loop_Return_status)

lemma run_200:
  assumes "run ev c sp steps = (Replied (Reply 200 b), tr)"
  shows "\<exists>st. loop c (init_state ev sp) steps = (Break, st) \<and> meta_write_ok ev \<and>
           b = OkBody (c_baseDir c) (manifest c sp st) \<and>
           tr = trace st @ [WriteFile (metaPath c) (MetaData (manifest c sp st))]"
  using assms
  by (auto simp: run_def conclude_def finish_def Let_def
      split: if_splits prod.splits outcome.splits dest: loop_Return_status)

lemma handler_200:
  assumes "handler ev req steps = (Replied (Reply 200 b), tr)"
  shows "run ev (cfg_of ev req) (fin_val (startPage_of req)) steps = (Replied (Reply 200 b), tr)"
proof (cases "getBearerToken req ev = [] \<or> \<not> valid_fields req")
  case True
  from handler_invalid [OF this, of steps] assms show ?thesis by auto
next
  case False
  with assms show ?thesis by (simp add: handler_valid)
qed

section \<open>Claims\<close>

lemma loop_step:
  "\<not> reached c st \<Longrightarrow>
     loop c st (e # post) =
       (case iteration c e st of (Continue, st') \<Rightarrow> loop c st' post | (out, st') \<Rightarrow> (out, st'))"
  by simp

lemma reaches_handler:
  assumes "reaches ev req pre st"
  shows "handler ev req (pre @ e # post) =
           conclude ev (cfg_of ev req) (fin_val (startPage_of req))
             (case iteration (cfg_of ev req) e st of
                (Continue, st') \<Rightarrow> loop (cfg_of ev req) st' post
              | (out, st') \<Rightarrow> (out, st'))"
proof -
  let ?c = "cfg_of ev req" and ?sp = "fin_val (startPage_of req)"
  from assms have l: "loop ?c (init_state ev ?sp) pre = (Exhausted, st)"
    and v: "getBearerToken req ev \<noteq> []" "valid_fields req" and mk: "mkdir_ok ev"
    by (simp_all add: reaches_def)
  from l have nr: "\<not> reached ?c st" by (rule loop_Exhausted_not_reached)
  have "loop ?c (init_state ev ?sp) (pre @ e # post) = loop ?c st (e # post)"
    using l by (rule loop_append)
  also have "\<dots> = (case iteration ?c e st of
                (Continue, st') \<Rightarrow> loop ?c st' post | (out, st') \<Rightarrow> (out, st'))"
    using nr by (rule loop_step)
  finally show ?thesis
    using v mk by (simp add: handler_valid run_def)
qed

lemma reaches_counted:
  "reaches ev req pre st \<Longrightarrow> counted (cfg_of ev req) (fin_val (startPage_of req)) st"
  unfolding reaches_def using counted_init counted_loop by blast

lemma cfg_of_baseDir [simp]: "c_baseDir (cfg_of ev req) = baseDir ev"
  by (simp add: cfg_of_def)

lemma cfg_of_num_str [simp]: "c_num_str (cfg_of ev req) = num_str ev"
  by (simp add: cfg_of_def)

lemma reaches_start:
  "getBearerToken req ev \<noteq> [] \<Longrightarrow> valid_fields req \<Longrightarrow> mkdir_ok ev \<Longrightarrow>
     reaches ev req [] (init_state ev (fin_val (startPage_of req)))"
  by (auto simp: reaches_def reached_def init_state_def cfg_of_def valid_fields_def
      split: jsnum.splits)


lemma example_valid:
  "getBearerToken example_req example_env \<noteq> [] \<and> valid_fields example_req \<and> mkdir_ok example_env"
  by (simp add: eval_defs valid_fields_def)

lemma reaches_two_pages: "reaches example_env example_req two_pages after_two_pages"
  unfolding reaches_def
  by (simp add: example_valid) (simp add: eval_defs two_pages_def after_two_pages_def)


lemma counted_meta: "counted c sp st \<Longrightarrow> meta_writes (trace st) = []"
  by (simp add: counted_def)

text \<open>
  C7. When the answer to a request is a 401, the handler replies 401 with the
  auth-failure message and stops: the trace ends with that request, whatever the script
  holds next. No manifest is written, and the files on disk are those written before the
  401, unchanged; when the 401 answers the first request, nothing at all has been
  written.
\<close>

theorem unauthorized_aborts:
  assumes "reaches ev req pre st" and "response e = Resp 401 h d"
  shows "handler ev req (pre @ e # post) =
           (Replied (Reply 401 (ErrorBody ''401 Unauthorized (bad STRAVA_ACCESS_TOKEN)'')),
            trace (send (cfg_of ev req) e st)) \<and>
         meta_writes (snd (handler ev req (pre @ e # post))) = [] \<and>
         writes (snd (handler ev req (pre @ e # post))) = writes (trace st) \<and>
         disk (snd (handler ev req (pre @ e # post))) = disk (trace st) \<and>
         (if pre = [] then writes (snd (handler ev req (pre @ e # post))) = [] else True)"
proof -
  let ?c = "cfg_of ev req"
  have it: "iteration ?c e st =
      (Return (Reply 401 (ErrorBody ''401 Unauthorized (bad STRAVA_ACCESS_TOKEN)'')), send ?c e st)"
    using assms(2) by (simp add: iteration_def Let_def)
  have h: "handler ev req (pre @ e # post) =
           (Replied (Reply 401 (ErrorBody ''401 Unauthorized (bad STRAVA_ACCESS_TOKEN)'')),
            trace (send ?c e st))"
    by (simp add: reaches_handler [OF assms(1)] it conclude_def)
  have m: "meta_writes (trace st) = []"
    using reaches_counted [OF assms(1)] by (rule counted_meta)
  have e: "pre = [] \<Longrightarrow> writes (trace st) = []"
    using assms(1) by (auto simp: reaches_def init_state_def split: if_splits)
  have w: "writes (snd (handler ev req (pre @ e # post))) = writes (trace st)"
    by (simp add: h)
  have d: "disk (snd (handler ev req (pre @ e # post))) = disk (trace st)"
    by (simp only: disk_def w)
  have n: "meta_writes (snd (handler ev req (pre @ e # post))) = []"
    using m by (simp add: h)
  have f: "if pre = [] then writes (snd (handler ev req (pre @ e # post))) = [] else True"
  proof (cases "pre = []")
    case True
    with e have "writes (trace st) = []" by simp
    with w have "writes (snd (handler ev req (pre @ e # post))) = []" by (simp only:)
    with True show ?thesis by simp
  next
    case False
    then show ?thesis by simp
  qed
  from h n w d f show ?thesis by blast
qed

theorem unauthorized_aborts_witness:
  "reaches example_env example_req two_pages after_two_pages \<and>
   response (answer (Resp 401 None JNull)) = Resp 401 None JNull \<and>
   handler example_env example_req (two_pages @ answer (Resp 401 None JNull) # []) =
     (Replied (Reply 401 (ErrorBody ''401 Unauthorized (bad STRAVA_ACCESS_TOKEN)'')),
      trace after_two_pages @ [Sleep 3750, Request 1700000008000 ''secret'' 3 200]) \<and>
   writes (snd (handler example_env example_req (two_pages @ answer (Resp 401 None JNull) # []))) =
     [([''srv'', ''runlytics'', ''data-scripting'', ''strava'', ''page_1.json''], PageData [JNum 1]),
      ([''srv'', ''runlytics'', ''data-scripting'', ''strava'', ''page_2.json''], PageData [JNum 2])]"
proof -
  have r: "response (answer (Resp 401 None JNull)) = Resp 401 None JNull"
    by (simp add: answer_def)
  have w: "writes (trace after_two_pages) =
     [([''srv'', ''runlytics'', ''data-scripting'', ''strava'', ''page_1.json''], PageData [JNum 1]),
      ([''srv'', ''runlytics'', ''data-scripting'', ''strava'', ''page_2.json''], PageData [JNum 2])]"
    by (simp add: after_two_pages_def writes_def write_of_def)
  have s: "trace (send (cfg_of example_env example_req) (answer (Resp 401 None JNull)) after_two_pages)
      = trace after_two_pages @ [Sleep 3750, Request 1700000008000 ''secret'' 3 200]"
    by (simp add: eval_defs after_two_pages_def)
  note t = unauthorized_aborts [OF reaches_two_pages r, of "[]"]
  from t have 1: "handler example_env example_req (two_pages @ answer (Resp 401 None JNull) # []) =
     (Replied (Reply 401 (ErrorBody ''401 Unauthorized (bad STRAVA_ACCESS_TOKEN)'')),
      trace (send (cfg_of example_env example_req) (answer (Resp 401 None JNull)) after_two_pages))"
    by (rule conjunct1)
  from t have 2: "writes (snd (handler example_env example_req
        (two_pages @ answer (Resp 401 None JNull) # []))) = writes (trace after_two_pages)"
    by blast
  from reaches_two_pages r 1 2 show ?thesis
    unfolding s w by blast
qed

lemma iteration_bad_status:
  assumes "response e = Resp status h d" and "status \<noteq> 401" and "status \<noteq> 429"
      and "status < 200 \<or> 300 \<le> status"
  shows "iteration c e st =
           (Return (Reply 502 (ErrorDetails
              (''Strava API error (HTTP '' @ c_num_str c (of_int status) @ '')'') d)), send c e st)"
  using assms by (auto simp: iteration_def Let_def)

lemma iteration_not_array:
  assumes "response e = Resp status h d" and "200 \<le> status" and "status < 300"
      and "\<not> isArray d"
  shows "iteration c e st =
           (Return (Reply 502 (ErrorDetails
              ''Unexpected Strava response (expected JSON array)'' d)), send c e st)"
  using assms by (auto simp: iteration_def Let_def isArray_def split: json.splits)

text \<open>
  C8 (as amended). When the answer to a request has a status outside 200..299 other than
  401 and 429, or a 2xx status with a body that is not an array, the handler replies 502
  with the upstream body as details and stops: the trace ends with that request, nothing
  more is written and no manifest is written. The error message names the upstream status
  when the status is outside 200..299; for a 2xx body that is not an array the message is
  a fixed text without the status.
\<close>

theorem upstream_error_aborts:
  assumes "reaches ev req pre st" and "response e = Resp status h d"
      and "status \<noteq> 401" and "status \<noteq> 429"
      and "status < 200 \<or> 300 \<le> status \<or> \<not> isArray d"
  shows "handler ev req (pre @ e # post) =
           (Replied (Reply 502 (ErrorDetails
              (if status < 200 \<or> 300 \<le> status
               then ''Strava API error (HTTP '' @ num_str ev (of_int status) @ '')''
               else ''Unexpected Strava response (expected JSON array)'') d)),
            trace (send (cfg_of ev req) e st)) \<and>
         meta_writes (snd (handler ev req (pre @ e # post))) = [] \<and>
         writes (snd (handler ev req (pre @ e # post))) = writes (trace st) \<and>
         requested_pages (snd (handler ev req (pre @ e # post))) =
           requested_pages (trace st) @ [page st]"
proof -
  let ?c = "cfg_of ev req"
  let ?msg = "if status < 200 \<or> 300 \<le> status
               then ''Strava API error (HTTP '' @ num_str ev (of_int status) @ '')''
               else ''Unexpected Strava response (expected JSON array)''"
  have it: "iteration ?c e st = (Return (Reply 502 (ErrorDetails ?msg d)), send ?c e st)"
  proof (cases "status < 200 \<or> 300 \<le> status")
    case True
    with iteration_bad_status [OF assms(2-4), of ?c st] show ?thesis by simp
  next
    case False
    with assms(5) have "200 \<le> status" "status < 300" "\<not> isArray d" by auto
    with iteration_not_array [OF assms(2), of ?c st] False show ?thesis by simp
  qed
  have h: "handler ev req (pre @ e # post) =
             (Replied (Reply 502 (ErrorDetails ?msg d)), trace (send ?c e st))"
    by (simp add: reaches_handler [OF assms(1)] it conclude_def)
  have m: "meta_writes (trace st) = []"
    using reaches_counted [OF assms(1)] by (rule counted_meta)
  have n: "meta_writes (snd (handler ev req (pre @ e # post))) = []"
    using m by (simp add: h)
  have w: "writes (snd (handler ev req (pre @ e # post))) = writes (trace st)"
    by (simp add: h)
  have r: "requested_pages (snd (handler ev req (pre @ e # post))) =
           requested_pages (trace st) @ [page st]"
    by (simp add: h)
  from h n w r show ?thesis by blast
qed

theorem upstream_error_aborts_witness:
  "reaches example_env example_req two_pages after_two_pages \<and>
   response (answer (Resp 503 None (JStr ''busy''))) = Resp 503 None (JStr ''busy'') \<and>
   handler example_env example_req (two_pages @ answer (Resp 503 None (JStr ''busy'')) # []) =
     (Replied (Reply 502 (ErrorDetails ''Strava API error (HTTP 503)'' (JStr ''busy''))),
      trace after_two_pages @ [Sleep 3750, Request 1700000008000 ''secret'' 3 200])"
proof -
  have r: "response (answer (Resp 503 None (JStr ''busy''))) = Resp 503 None (JStr ''busy'')"
    by (simp add: answer_def)
  have s: "trace (send (cfg_of example_env example_req) (answer (Resp 503 None (JStr ''busy'')))
             after_two_pages)
      = trace after_two_pages @ [Sleep 3750, Request 1700000008000 ''secret'' 3 200]"
    by (simp add: eval_defs after_two_pages_def)
  have n: "num_str example_env (of_int 503) = ''503''"
    by (simp add: example_env_def dec_str_def dec.simps [of 503] dec.simps [of 50])
  have "handler example_env example_req (two_pages @ answer (Resp 503 None (JStr ''busy'')) # []) =
     (Replied (Reply 502 (ErrorDetails
        (if (503::int) < 200 \<or> (300::int) \<le> 503
         then ''Strava API error (HTTP '' @ num_str example_env (of_int 503) @ '')''
         else ''Unexpected Strava response (expected JSON array)'') (JStr ''busy''))),
      trace (send (cfg_of example_env example_req) (answer (Resp 503 None (JStr ''busy'')))
             after_two_pages))"
    using upstream_error_aborts [OF reaches_two_pages r, of "[]"] by simp
  then have "handler example_env example_req (two_pages @ answer (Resp 503 None (JStr ''busy'')) # []) =
     (Replied (Reply 502 (ErrorDetails ''Strava API error (HTTP 503)'' (JStr ''busy''))),
      trace after_two_pages @ [Sleep 3750, Request 1700000008000 ''secret'' 3 200])"
    unfolding s n by simp
  with reaches_two_pages r show ?thesis by blast
qed

text \<open>
  C8 as stated fails: for a 2xx answer whose body is not an array the reply does not carry
  the upstream status; upstream statuses 200 and 201 give the same reply.
\<close>

theorem status_not_surfaced:
  "fst (handler example_env example_req [answer (Resp 200 None (JObj []))]) =
     Replied (Reply 502 (ErrorDetails ''Unexpected Strava response (expected JSON array)'' (JObj []))) \<and>
   fst (handler example_env example_req [answer (Resp 201 None (JObj []))]) =
     Replied (Reply 502 (ErrorDetails ''Unexpected Strava response (expected JSON array)'' (JObj [])))"
  by (simp add: eval_defs)

lemma iteration_write_fails:
  assumes "response e = Resp status h (JArr recs)" and "200 \<le> status" and "status < 300"
      and "recs \<noteq> []" and "\<not> write_ok e"
  shows "iteration c e st =
           (Throw (WriteError (outPath c (page st))),
            (send c e st)\<lparr>trace := trace (send c e st) @ [WriteFailed (outPath c (page st))]\<rparr>)"
  using assms by (auto simp: iteration_def Let_def)

lemma handler_Replied_status:
  assumes "handler ev req steps = (Replied (Reply s b), tr)"
  shows "s = 200 \<or> s = 400 \<or> s = 401 \<or> s = 502"
proof (cases "getBearerToken req ev = [] \<or> \<not> valid_fields req")
  case True
  from handler_invalid [OF this, of steps] assms show ?thesis by auto
next
  case False
  with assms have "run ev (cfg_of ev req) (fin_val (startPage_of req)) steps = (Replied (Reply s b), tr)"
    by (simp add: handler_valid)
  from run_Replied_status [OF this] show ?thesis by blast
qed

lemma manifest_write_fails:
  assumes "getBearerToken req ev \<noteq> []" and "valid_fields req" and "mkdir_ok ev"
      and "\<not> meta_write_ok ev"
      and "loop (cfg_of ev req) (init_state ev (fin_val (startPage_of req))) steps = (Break, sb)"
  shows "handler ev req steps =
           (Forwarded (WriteError (metaPath (cfg_of ev req))),
            trace sb @ [WriteFailed (metaPath (cfg_of ev req))])"
  using assms by (simp add: handler_valid run_def conclude_def finish_def)

text \<open>
  C5 (as amended). A failed page write ends the run: the exception goes to \<^verbatim>\<open>next(err)\<close>,
  the failed write is the last effect (it is not tried again, and the rest of the script
  is not read), and through the error middleware the caller receives the reply 500
  "Internal server error". The same holds for a failed write of the manifest. Every reply
  the handler sends itself has status 200, 400, 401 or 502, so the 500 differs from the
  replies for upstream statuses and bodies; it is the reply for every exception alike.
\<close>

theorem write_failure_fatal:
  assumes "reaches ev req pre st"
      and "response e = Resp status h (JArr recs)" and "200 \<le> status" and "status < 300"
      and "recs \<noteq> []" and "\<not> write_ok e"
  shows "handler ev req (pre @ e # post) =
           (Forwarded (WriteError (outPath (cfg_of ev req) (page st))),
            trace (send (cfg_of ev req) e st) @ [WriteFailed (outPath (cfg_of ev req) (page st))]) \<and>
         caller_sees (fst (handler ev req (pre @ e # post))) =
           Some (Reply 500 (ErrorBody ''Internal server error'')) \<and>
         (getBearerToken req2 ev2 \<noteq> [] \<and> valid_fields req2 \<and> mkdir_ok ev2 \<and>
          \<not> meta_write_ok ev2 \<and>
          loop (cfg_of ev2 req2) (init_state ev2 (fin_val (startPage_of req2))) steps2 = (Break, sb)
          \<longrightarrow> handler ev2 req2 steps2 =
                (Forwarded (WriteError (metaPath (cfg_of ev2 req2))),
                 trace sb @ [WriteFailed (metaPath (cfg_of ev2 req2))]) \<and>
              caller_sees (fst (handler ev2 req2 steps2)) =
                Some (Reply 500 (ErrorBody ''Internal server error''))) \<and>
         (handler ev3 req3 steps3 = (Replied (Reply s b), tr3)
          \<longrightarrow> s = 200 \<or> s = 400 \<or> s = 401 \<or> s = 502)"
proof -
  let ?c = "cfg_of ev req"
  have h: "handler ev req (pre @ e # post) =
           (Forwarded (WriteError (outPath ?c (page st))),
            trace (send ?c e st) @ [WriteFailed (outPath ?c (page st))])"
    by (simp add: reaches_handler [OF assms(1)] iteration_write_fails [OF assms(2-6)] conclude_def)
  have c: "caller_sees (fst (handler ev req (pre @ e # post))) =
           Some (Reply 500 (ErrorBody ''Internal server error''))"
    by (simp add: h caller_sees_def error_middleware_def)
  have m: "getBearerToken req2 ev2 \<noteq> [] \<and> valid_fields req2 \<and> mkdir_ok ev2 \<and>
          \<not> meta_write_ok ev2 \<and>
          loop (cfg_of ev2 req2) (init_state ev2 (fin_val (startPage_of req2))) steps2 = (Break, sb)
          \<longrightarrow> handler ev2 req2 steps2 =
                (Forwarded (WriteError (metaPath (cfg_of ev2 req2))),
                 trace sb @ [WriteFailed (metaPath (cfg_of ev2 req2))]) \<and>
              caller_sees (fst (handler ev2 req2 steps2)) =
                Some (Reply 500 (ErrorBody ''Internal server error''))"
    by (auto simp: manifest_write_fails caller_sees_def error_middleware_def)
  have r: "handler ev3 req3 steps3 = (Replied (Reply s b), tr3)
          \<longrightarrow> s = 200 \<or> s = 400 \<or> s = 401 \<or> s = 502"
    using handler_Replied_status by blast
  from h c m r show ?thesis by blast
qed

theorem write_failure_fatal_witness:
  "reaches example_env example_req two_pages after_two_pages \<and>
   response ((answer (Resp 200 None (JArr [JNum 3])))\<lparr>write_ok := False\<rparr>)
     = Resp 200 None (JArr [JNum 3]) \<and>
   handler example_env example_req
       (two_pages @ (answer (Resp 200 None (JArr [JNum 3])))\<lparr>write_ok := False\<rparr> # two_pages) =
     (Forwarded (WriteError [''srv'', ''runlytics'', ''data-scripting'', ''strava'', ''page_3.json'']),
      trace after_two_pages @
        [Sleep 3750, Request 1700000008000 ''secret'' 3 200,
         WriteFailed [''srv'', ''runlytics'', ''data-scripting'', ''strava'', ''page_3.json'']]) \<and>
   caller_sees (fst (handler example_env example_req
       (two_pages @ (answer (Resp 200 None (JArr [JNum 3])))\<lparr>write_ok := False\<rparr> # two_pages))) =
     Some (Reply 500 (ErrorBody ''Internal server error''))"
proof -
  let ?e = "(answer (Resp 200 None (JArr [JNum 3])))\<lparr>write_ok := False\<rparr>"
  have r: "response ?e = Resp 200 None (JArr [JNum 3])"
    by (simp add: answer_def)
  have w: "\<not> write_ok ?e" by simp
  have s: "trace (send (cfg_of example_env example_req) ?e after_two_pages)
      = trace after_two_pages @ [Sleep 3750, Request 1700000008000 ''secret'' 3 200]"
    by (simp add: eval_defs after_two_pages_def)
  have p: "outPath (cfg_of example_env example_req) (page after_two_pages)
      = [''srv'', ''runlytics'', ''data-scripting'', ''strava'', ''page_3.json'']"
    by (simp add: eval_defs after_two_pages_def)
  have a: "(200::int) \<le> 200" "(200::int) < 300" "[JNum 3] \<noteq> []" by simp_all
  note t = write_failure_fatal [OF reaches_two_pages r a w, of two_pages]
  have 1: "handler example_env example_req (two_pages @ ?e # two_pages) =
           (Forwarded (WriteError (outPath (cfg_of example_env example_req) (page after_two_pages))),
            trace (send (cfg_of example_env example_req) ?e after_two_pages)
              @ [WriteFailed (outPath (cfg_of example_env example_req) (page after_two_pages))])"
    using t by (rule conjunct1)
  have 2: "caller_sees (fst (handler example_env example_req (two_pages @ ?e # two_pages))) =
     Some (Reply 500 (ErrorBody ''Internal server error''))"
    using t [THEN conjunct2] by (rule conjunct1)
  from reaches_two_pages r 1 2 show ?thesis
    unfolding s p by simp
qed

text \<open>
  C5 as stated fails: the caller receives the same reply for a failed page write as for
  a failed transport to the upstream.
\<close>

theorem storage_failure_not_distinct:
  "fst (handler example_env example_req
          [(answer (Resp 200 None (JArr [JNum 1])))\<lparr>write_ok := False\<rparr>]) =
     Forwarded (WriteError [''srv'', ''runlytics'', ''data-scripting'', ''strava'', ''page_1.json'']) \<and>
   fst (handler example_env example_req [answer NetFail]) = Forwarded NetworkError \<and>
   caller_sees (fst (handler example_env example_req
          [(answer (Resp 200 None (JArr [JNum 1])))\<lparr>write_ok := False\<rparr>])) =
     caller_sees (fst (handler example_env example_req [answer NetFail]))"
  by (simp add: eval_defs caller_sees_def error_middleware_def)

lemma iteration_Break:
  "iteration c e st = (Break, st') \<Longrightarrow> end_of_data e"
  by (auto simp: iteration_def Let_def end_of_data_def
      split: upstream.splits json.splits if_splits)

lemma unbounded_Break:
  assumes "c_maxPages c = 0" and "loop c st es = (Break, st')"
  shows "\<exists>e \<in> set es. end_of_data e"
proof -
  from assms(1) have "\<not> reached c st'" by (simp add: reached_def)
  with loop_outcome [OF assms(2)] obtain e sm where
    "e \<in> set es" "iteration c e sm = (Break, st')" by auto
  then show ?thesis using iteration_Break by blast
qed

lemma run_not_400:
  "run ev c sp steps \<noteq> (Replied (Reply 400 b), tr)"
  using run_Replied_status [of ev c sp steps 400 b tr] by auto

lemma token_update [simp]:
  "getBearerToken (req\<lparr>body_per_page := x\<rparr>) ev = getBearerToken req ev"
  by (simp add: getBearerToken_def)

text \<open>
  C9 (as amended). With a token present, the handler rejects a request with a 400 reply,
  before any effect, exactly when its numeric fields are not valid: \<open>rpm\<close> finite and
  at least 1, \<open>per_page\<close> from 1 to 200, \<open>start_page\<close> at least 1, \<open>max_pages\<close> at
  least 0. A valid request is the only one that runs the loop. Within a valid request
  \<open>per_page = 200\<close> is valid and \<open>per_page = 201\<close> is rejected with the message of
  that field. With \<open>max_pages = 0\<close> the page-count guard never holds, and the loop breaks
  only at an empty page.
\<close>

theorem validation:
  assumes "getBearerToken req ev \<noteq> []"
  shows "((\<exists>msg. handler ev req steps = (Replied (Reply 400 (ErrorBody msg)), []))
            \<longleftrightarrow> \<not> valid_fields req) \<and>
         (valid_fields req \<longrightarrow>
            handler ev req steps = run ev (cfg_of ev req) (fin_val (startPage_of req)) steps) \<and>
         (valid_fields req \<longrightarrow>
            valid_fields (req\<lparr>body_per_page := Some (Fin 200)\<rparr>) \<and>
            handler ev (req\<lparr>body_per_page := Some (Fin 201)\<rparr>) steps =
              (Replied (Reply 400 (ErrorBody ''`per_page` must be 1..200'')), [])) \<and>
         (maxPages_of req = Fin 0 \<longrightarrow>
            \<not> reached (cfg_of ev req) st \<and>
            (loop (cfg_of ev req) st es = (Break, st') \<longrightarrow> (\<exists>e \<in> set es. end_of_data e)))"
proof -
  have 1: "(\<exists>msg. handler ev req steps = (Replied (Reply 400 (ErrorBody msg)), []))
            \<longleftrightarrow> \<not> valid_fields req"
  proof
    assume "\<exists>msg. handler ev req steps = (Replied (Reply 400 (ErrorBody msg)), [])"
    then show "\<not> valid_fields req"
      using assms run_not_400 by (auto simp: handler_valid)
  next
    assume "\<not> valid_fields req"
    then show "\<exists>msg. handler ev req steps = (Replied (Reply 400 (ErrorBody msg)), [])"
      using handler_invalid by blast
  qed
  have 2: "valid_fields req \<longrightarrow>
            handler ev req steps = run ev (cfg_of ev req) (fin_val (startPage_of req)) steps"
    using assms by (simp add: handler_valid)
  have 3: "valid_fields req \<longrightarrow>
            valid_fields (req\<lparr>body_per_page := Some (Fin 200)\<rparr>) \<and>
            handler ev (req\<lparr>body_per_page := Some (Fin 201)\<rparr>) steps =
              (Replied (Reply 400 (ErrorBody ''`per_page` must be 1..200'')), [])"
    using assms
    by (auto simp: valid_fields_def handler_def rpm_of_def perPage_of_def startPage_of_def
        maxPages_of_def field_or_def isFinite_def split: jsnum.splits option.splits)
  have 4: "maxPages_of req = Fin 0 \<longrightarrow>
            \<not> reached (cfg_of ev req) st \<and>
            (loop (cfg_of ev req) st es = (Break, st') \<longrightarrow> (\<exists>e \<in> set es. end_of_data e))"
  proof
    assume "maxPages_of req = Fin 0"
    then have z: "c_maxPages (cfg_of ev req) = 0" by (simp add: cfg_of_def)
    then show "\<not> reached (cfg_of ev req) st \<and>
            (loop (cfg_of ev req) st es = (Break, st') \<longrightarrow> (\<exists>e \<in> set es. end_of_data e))"
      using unbounded_Break [OF z] by (auto simp: reached_def)
  qed
  from 1 2 3 4 show ?thesis by blast
qed

theorem validation_witness:
  "getBearerToken example_req example_env \<noteq> [] \<and> valid_fields example_req \<and>
   maxPages_of example_req = Fin 0 \<and>
   valid_fields (example_req\<lparr>body_per_page := Some (Fin 200)\<rparr>) \<and>
   handler example_env (example_req\<lparr>body_per_page := Some (Fin 201)\<rparr>) two_pages =
     (Replied (Reply 400 (ErrorBody ''`per_page` must be 1..200'')), []) \<and>
   \<not> reached (cfg_of example_env example_req) after_two_pages"
proof -
  have t: "getBearerToken example_req example_env \<noteq> []" and v: "valid_fields example_req"
    using example_valid by simp_all
  have m: "maxPages_of example_req = Fin 0"
    by (simp add: maxPages_of_def field_or_def example_req_def)
  note c = validation [OF t, of two_pages after_two_pages]
  from c v have 3: "valid_fields (example_req\<lparr>body_per_page := Some (Fin 200)\<rparr>) \<and>
     handler example_env (example_req\<lparr>body_per_page := Some (Fin 201)\<rparr>) two_pages =
       (Replied (Reply 400 (ErrorBody ''`per_page` must be 1..200'')), [])"
    by blast
  from c m have 4: "\<not> reached (cfg_of example_env example_req) after_two_pages"
    by blast
  from t v m 3 4 show ?thesis by blast
qed

text \<open>
  C9 as stated fails: an \<open>rpm\<close> of one half is a positive number, and the request is
  rejected.
\<close>

theorem positive_rpm_rejected:
  "(0::rat) < 1 / 2 \<and>
   handler example_env (example_req\<lparr>body_rpm := Some (Fin (1 / 2))\<rparr>) two_pages =
     (Replied (Reply 400 (ErrorBody ''`rpm` must be >= 1'')), [])"
  by (simp add: eval_defs)

lemma split_slash_plain: "CHR ''/'' \<notin> set s \<Longrightarrow> split_slash s = [s]"
  by (induction s) auto








lemma conclude_page_writes [simp]:
  "page_writes (snd (conclude ev c sp (out, st))) = page_writes (trace st)"
  by (cases out) (simp_all add: conclude_def finish_def Let_def)





lemma cfg_of_name [simp]: "c_name (cfg_of ev req) = name_of req"
  by (simp add: cfg_of_def)


lemma dec_digits: "set (dec n) \<subseteq> set ''0123456789''"
proof (induction n rule: dec.induct)
  case (1 n)
  show ?case
  proof (cases "n < 10")
    case True
    then have "''0123456789'' ! n \<in> set ''0123456789''" by (intro nth_mem) simp
    with True show ?thesis by (simp add: dec.simps [of n])
  next
    case False
    have "''0123456789'' ! (n mod 10) \<in> set ''0123456789''" by (intro nth_mem) simp
    with False 1 show ?thesis by (simp add: dec.simps [of n])
  qed
qed

lemma dec_str_chars: "CHR ''/'' \<notin> set (dec_str q) \<and> CHR ''_'' \<notin> set (dec_str q)"
  using dec_digits [of "nat \<lfloor>q\<rfloor>"] by (auto simp: dec_str_def)



lemma run_two_pages:
  "handler example_env example_req (two_pages @ [answer (Resp 200 None (JArr []))]) =
     (Replied (Reply 200 (OkBody [''srv'', ''runlytics'', ''data-scripting'', ''strava'']
        \<lparr>m_name = None, m_per_page = 200, m_start_page = 1, m_fetched_pages = 2,
           m_generated_at = 1700000008250\<rparr>)),
      trace after_two_pages @
        [Sleep 3750, Request 1700000008000 ''secret'' 3 200,
         WriteFile [''srv'', ''runlytics'', ''data-scripting'', ''strava'', ''meta.json'']
           (MetaData \<lparr>m_name = None, m_per_page = 200, m_start_page = 1, m_fetched_pages = 2,
              m_generated_at = 1700000008250\<rparr>)])"
  by (simp add: eval_defs two_pages_def after_two_pages_def)

lemma split_slash_ne [simp]: "split_slash s \<noteq> []"
  by (induction s) (auto split: list.splits)

lemma split_slash_append:
  "CHR ''/'' \<notin> set r \<Longrightarrow>
     split_slash (s @ r) = butlast (split_slash s) @ [last (split_slash s) @ r]"
proof (induction s)
  case Nil
  then show ?case by (simp add: split_slash_plain)
next
  case (Cons c s)
  then show ?case
    by (cases "split_slash s") (auto split: list.splits)
qed

lemma push_segs_snoc:
  "l \<noteq> [] \<Longrightarrow> l \<noteq> ''.'' \<Longrightarrow> l \<noteq> ''..'' \<Longrightarrow> push_segs p (ss @ [l]) = push_segs p ss @ [l]"
  by (induction ss arbitrary: p) auto

lemma filename_stem: "filename c pg = stem c @ c_num_str c pg @ ''.json''"
  by (simp add: filename_def stem_def)

lemma outPath_last:
  assumes "CHR ''/'' \<notin> set (c_num_str c q)"
  shows "outPath c q =
           push_segs (c_baseDir c) (butlast (split_slash (stem c)))
             @ [last (split_slash (stem c)) @ c_num_str c q @ ''.json'']"
proof -
  let ?l = "last (split_slash (stem c)) @ c_num_str c q @ ''.json''"
  have "CHR ''/'' \<notin> set (c_num_str c q @ ''.json'')" using assms by simp
  from split_slash_append [OF this, of "stem c"]
  have s: "split_slash (filename c q) = butlast (split_slash (stem c)) @ [?l]"
    by (simp add: filename_stem)
  have "length ?l \<ge> 5" by simp
  then have "?l \<noteq> [] \<and> ?l \<noteq> ''.'' \<and> ?l \<noteq> ''..''" by auto
  then show ?thesis
    unfolding outPath_def path_join_def s by (intro push_segs_snoc) simp_all
qed

lemma outPath_inj:
  assumes "CHR ''/'' \<notin> set (c_num_str c q1)" and "CHR ''/'' \<notin> set (c_num_str c q2)"
      and "outPath c q1 = outPath c q2"
  shows "c_num_str c q1 = c_num_str c q2"
  using assms(3) unfolding outPath_last [OF assms(1)] outPath_last [OF assms(2)] by simp

lemma digit_val_digit: "d < 10 \<Longrightarrow> digit_val (''0123456789'' ! d) = d"
proof -
  assume "d < 10"
  then have "d = 0 \<or> d = 1 \<or> d = 2 \<or> d = 3 \<or> d = 4 \<or> d = 5 \<or> d = 6 \<or> d = 7 \<or> d = 8 \<or> d = 9"
    by arith
  then show ?thesis by (auto simp: digit_val_def)
qed

lemma digits_val_snoc: "digits_val (s @ [c]) = 10 * digits_val s + digit_val c"
  by (simp add: digits_val_def)

lemma digits_val_dec: "digits_val (dec n) = n"
proof (induction n rule: dec.induct)
  case (1 n)
  show ?case
  proof (cases "n < 10")
    case True
    then show ?thesis by (simp add: dec.simps [of n] digits_val_def digit_val_digit)
  next
    case False
    with 1 have "digits_val (dec (n div 10)) = n div 10" by simp
    with False show ?thesis
      by (simp add: dec.simps [of n] digits_val_snoc digit_val_digit)
  qed
qed

lemma dec_str_inj: "inj_on dec_str \<nat>"
proof (rule inj_onI)
  fix x y :: rat
  assume "x \<in> \<nat>" and "y \<in> \<nat>" and e: "dec_str x = dec_str y"
  then obtain a b where x: "x = of_nat a" and y: "y = of_nat b" by (auto elim!: Nats_cases)
  from e have "dec a = dec b" by (simp add: x y dec_str_def)
  then have "digits_val (dec a) = digits_val (dec b)" by simp
  then show "x = y" by (simp add: digits_val_dec x y)
qed

lemma dec_2_53: "dec 9007199254740992 = ''9007199254740992''"
  by (simp add: dec.simps)

text \<open>
  C1 (as amended). When a run completes (the handler replies 200 with the manifest), its
  start page is a whole number and start page plus the count of fetched pages is at most
  \<open>2^53\<close>, the page files written are, in order, those of the page numbers
  \<open>start_page, start_page + 1, ..., start_page + fetched_pages - 1\<close>, each at a path of
  its own: none is missing and none occurs twice. Along the trace every request asks for
  the current page, and the current page is incremented only after the write of the
  current page. (The number-to-string conversion of the runtime tells whole numbers
  apart and yields no slash.)
\<close>

theorem pages_contiguous:
  assumes "handler ev req steps = (Replied (Reply 200 (OkBody d m)), tr)"
      and "m_start_page m = of_nat a"
      and "a + m_fetched_pages m \<le> 2 ^ 53"
      and "inj_on (num_str ev) \<nat>"
      and "\<forall>q. CHR ''/'' \<notin> set (num_str ev q)"
  shows "m_start_page m = fin_val (startPage_of req) \<and>
         page_writes tr =
           map (\<lambda>k. outPath (cfg_of ev req) (m_start_page m + of_nat k)) [0..<m_fetched_pages m] \<and>
         distinct (page_writes tr) \<and>
         follows (cfg_of ev req) (m_start_page m) tr"
proof -
  let ?c = "cfg_of ev req" and ?sp = "fin_val (startPage_of req)"
  from handler_200 [OF assms(1)] run_200 [of ev ?c ?sp steps "OkBody d m" tr]
  obtain st where l: "loop ?c (init_state ev ?sp) steps = (Break, st)"
    and m: "m = manifest ?c ?sp st"
    and tr: "tr = trace st @ [WriteFile (metaPath ?c) (MetaData m)]"
    by auto
  have c: "counted ?c ?sp st"
    using counted_init l by (rule counted_loop)
  from m have sp: "m_start_page m = ?sp" and n: "m_fetched_pages m = fetchedPages st"
    by (simp_all add: manifest_def)
  have exact: "(js_incr ^^ k) ?sp = m_start_page m + of_nat k" if "k < fetchedPages st" for k
  proof -
    from that assms(3) n have "a + k \<le> 2 ^ 53" by simp
    from js_incr_funpow [OF this] show ?thesis by (simp add: sp [symmetric] assms(2))
  qed
  from c have "page_writes (trace st) = map (\<lambda>k. outPath ?c ((js_incr ^^ k) ?sp)) [0..<fetchedPages st]"
    by (simp add: counted_def)
  also have "\<dots> = map (\<lambda>k. outPath ?c (m_start_page m + of_nat k)) [0..<fetchedPages st]"
    by (rule map_cong) (simp_all add: exact)
  finally have pw: "page_writes tr =
      map (\<lambda>k. outPath ?c (m_start_page m + of_nat k)) [0..<m_fetched_pages m]"
    by (simp add: tr n)
  have "inj_on (\<lambda>k. outPath ?c (m_start_page m + of_nat k)) (set [0..<m_fetched_pages m])"
  proof (rule inj_onI)
    fix j k
    assume "outPath ?c (m_start_page m + of_nat j) = outPath ?c (m_start_page m + of_nat k)"
    then have "num_str ev (of_nat (a + j)) = num_str ev (of_nat (a + k))"
      using outPath_inj [of ?c "of_nat (a + j)" "of_nat (a + k)"] assms(5)
      by (simp add: assms(2))
    with assms(4) have "(of_nat (a + j) :: rat) = of_nat (a + k)"
      by (auto dest: inj_onD)
    then show "j = k" by simp
  qed
  then have di: "distinct (page_writes tr)"
    unfolding pw by (simp add: distinct_map)
  from c have "follows ?c ?sp tr"
    unfolding tr by (simp add: counted_def follows_append)
  with sp pw di show ?thesis by simp
qed

theorem pages_contiguous_witness:
  "inj_on (num_str example_env) \<nat> \<and>
   (\<forall>q. CHR ''/'' \<notin> set (num_str example_env q)) \<and>
   page_writes (snd (handler example_env example_req
       (two_pages @ [answer (Resp 200 None (JArr []))])))
     = [[''srv'', ''runlytics'', ''data-scripting'', ''strava'', ''page_1.json''],
        [''srv'', ''runlytics'', ''data-scripting'', ''strava'', ''page_2.json'']] \<and>
   distinct (page_writes (snd (handler example_env example_req
       (two_pages @ [answer (Resp 200 None (JArr []))])))) \<and>
   follows (cfg_of example_env example_req) 1
     (snd (handler example_env example_req (two_pages @ [answer (Resp 200 None (JArr []))])))"
proof -
  have i: "inj_on (num_str example_env) \<nat>"
    using dec_str_inj by (simp add: example_env_def)
  have s: "\<forall>q. CHR ''/'' \<notin> set (num_str example_env q)"
    using dec_str_chars by (simp add: example_env_def)
  have a: "m_start_page \<lparr>m_name = None, m_per_page = 200, m_start_page = 1, m_fetched_pages = 2,
           m_generated_at = 1700000008250\<rparr> = of_nat 1"
    and b: "1 + m_fetched_pages \<lparr>m_name = None, m_per_page = 200, m_start_page = 1,
           m_fetched_pages = 2, m_generated_at = 1700000008250\<rparr> \<le> 2 ^ 53"
    by simp_all
  let ?tr = "trace after_two_pages @
        [Sleep 3750, Request 1700000008000 ''secret'' 3 200,
         WriteFile [''srv'', ''runlytics'', ''data-scripting'', ''strava'', ''meta.json'']
           (MetaData \<lparr>m_name = None, m_per_page = 200, m_start_page = 1, m_fetched_pages = 2,
              m_generated_at = 1700000008250\<rparr>)]"
  have h: "snd (handler example_env example_req
       (two_pages @ [answer (Resp 200 None (JArr []))])) = ?tr"
    by (simp only: run_two_pages snd_conv)
  note t = pages_contiguous [OF run_two_pages a b i s]
  have p: "map (\<lambda>k. outPath (cfg_of example_env example_req) (1 + of_nat k)) [0..<2] =
      [[''srv'', ''runlytics'', ''data-scripting'', ''strava'', ''page_1.json''],
       [''srv'', ''runlytics'', ''data-scripting'', ''strava'', ''page_2.json'']]"
    by (simp add: upt_rec eval_defs)
  from t have "page_writes ?tr =
      map (\<lambda>k. outPath (cfg_of example_env example_req) (1 + of_nat k)) [0..<2]"
    by simp
  then have 1: "page_writes ?tr =
      [[''srv'', ''runlytics'', ''data-scripting'', ''strava'', ''page_1.json''],
       [''srv'', ''runlytics'', ''data-scripting'', ''strava'', ''page_2.json'']]"
    by (simp only: p)
  from t have 2: "distinct (page_writes ?tr)" by blast
  from t have 3: "follows (cfg_of example_env example_req) 1 ?tr" by simp
  from i s 1 2 3 show ?thesis unfolding h by blast
qed

text \<open>
  C1 as stated fails: a start page of \<open>2^53\<close> is valid, and \<^verbatim>\<open>page += 1\<close> leaves it as
  it is; the run completes with two fetched pages, both written to the file of page
  \<open>2^53\<close>. Nor does a start page that is not a whole number give a range: from the
  double next above 1 the run goes on to the pages 2 and 3.
\<close>

theorem page_number_stalls:
  "fst (handler example_env (example_req\<lparr>body_start_page := Some (Fin 9007199254740992)\<rparr>)
         (two_pages @ [answer (Resp 200 None (JArr []))])) =
     Replied (Reply 200 (OkBody [''srv'', ''runlytics'', ''data-scripting'', ''strava'']
        \<lparr>m_name = None, m_per_page = 200, m_start_page = 9007199254740992, m_fetched_pages = 2,
           m_generated_at = 1700000008250\<rparr>)) \<and>
   writes (snd (handler example_env (example_req\<lparr>body_start_page := Some (Fin 9007199254740992)\<rparr>)
         (two_pages @ [answer (Resp 200 None (JArr []))]))) =
     [([''srv'', ''runlytics'', ''data-scripting'', ''strava'', ''page_9007199254740992.json''],
       PageData [JNum 1]),
      ([''srv'', ''runlytics'', ''data-scripting'', ''strava'', ''page_9007199254740992.json''],
       PageData [JNum 2]),
      ([''srv'', ''runlytics'', ''data-scripting'', ''strava'', ''meta.json''],
       MetaData \<lparr>m_name = None, m_per_page = 200, m_start_page = 9007199254740992,
         m_fetched_pages = 2, m_generated_at = 1700000008250\<rparr>)] \<and>
   requested_pages (snd (handler example_env
         (example_req\<lparr>body_start_page := Some (Fin (4503599627370497 / 4503599627370496))\<rparr>)
         (two_pages @ [answer (Resp 200 None (JArr []))]))) =
     [4503599627370497 / 4503599627370496, 2, 3]"
proof -
  let ?big = "example_req\<lparr>body_start_page := Some (Fin 9007199254740992)\<rparr>"
  let ?frac = "example_req\<lparr>body_start_page := Some (Fin (4503599627370497 / 4503599627370496))\<rparr>"
  let ?steps = "two_pages @ [answer (Resp 200 None (JArr []))]"
  have 1: "handler example_env ?big ?steps =
     (Replied (Reply 200 (OkBody [''srv'', ''runlytics'', ''data-scripting'', ''strava'']
        \<lparr>m_name = None, m_per_page = 200, m_start_page = 9007199254740992, m_fetched_pages = 2,
           m_generated_at = 1700000008250\<rparr>)),
      [Mkdir [''srv'', ''runlytics'', ''data-scripting'', ''strava''],
       Request 1700000000000 ''secret'' 9007199254740992 200,
       WriteFile [''srv'', ''runlytics'', ''data-scripting'', ''strava'', ''page_9007199254740992.json'']
         (PageData [JNum 1]),
       Sleep 3750,
       Request 1700000004000 ''secret'' 9007199254740992 200,
       WriteFile [''srv'', ''runlytics'', ''data-scripting'', ''strava'', ''page_9007199254740992.json'']
         (PageData [JNum 2]),
       Sleep 3750,
       Request 1700000008000 ''secret'' 9007199254740992 200,
       WriteFile [''srv'', ''runlytics'', ''data-scripting'', ''strava'', ''meta.json'']
         (MetaData \<lparr>m_name = None, m_per_page = 200, m_start_page = 9007199254740992,
            m_fetched_pages = 2, m_generated_at = 1700000008250\<rparr>)])"
    by (simp add: eval_defs two_pages_def js_incr_2_53 dec_2_53)
  have 2: "requested_pages (snd (handler example_env ?frac ?steps)) =
     [4503599627370497 / 4503599627370496, 2, 3]"
    by (simp add: eval_defs two_pages_def js_incr_frac requested_pages_def requested_page_of_def)
  show ?thesis unfolding 1 fst_conv snd_conv
    using 2 by (simp add: writes_def write_of_def)
qed












lemma conclude_send_times [simp]:
  "send_times (snd (conclude ev c sp (out, st))) = send_times (trace st)"
  by (cases out) (simp_all add: conclude_def finish_def Let_def)







lemma throttledD: "throttled e \<Longrightarrow> \<exists>h d. response e = Resp 429 h d"
  by (cases "response e") (simp_all add: throttled_def)

lemma iteration_429:
  "response e = Resp 429 h d \<Longrightarrow>
     iteration c e st = (Continue, backoff (retryMs h) (send c e st))"
  by (simp add: iteration_def Let_def)

lemma throttled_loop:
  assumes "\<forall>e \<in> set ts. throttled e" and "\<not> reached c st"
  shows "\<exists>st'. loop c st ts = (Exhausted, st') \<and> page st' = page st \<and>
           fetchedPages st' = fetchedPages st \<and> writes (trace st') = writes (trace st) \<and>
           requested_pages (trace st') = requested_pages (trace st) @ replicate (length ts) (page st)"
  using assms
proof (induction ts arbitrary: st)
  case Nil
  then show ?case by simp
next
  case (Cons e ts)
  from Cons.prems(1) obtain h d where r: "response e = Resp 429 h d"
    using throttledD [of e] by auto
  let ?s1 = "backoff (retryMs h) (send c e st)"
  have it: "iteration c e st = (Continue, ?s1)" using r by (rule iteration_429)
  have nr: "\<not> reached c ?s1" using Cons.prems(2) by (simp add: reached_def)
  from Cons.prems(1) have "\<forall>e \<in> set ts. throttled e" by simp
  from Cons.IH [OF this nr] obtain st' where
    "loop c ?s1 ts = (Exhausted, st')" "page st' = page st" "fetchedPages st' = fetchedPages st"
    "writes (trace st') = writes (trace st)"
    "requested_pages (trace st') = requested_pages (trace ?s1) @ replicate (length ts) (page st)"
    by auto
  with it Cons.prems(2) show ?case
    by (simp add: replicate_append_same)
qed

lemma answer_response: "response (answer r) = r"
  by (simp add: answer_def)

lemma is_digit_codes:
  "is_digit ch \<longleftrightarrow> 48 \<le> (of_char ch :: nat) \<and> (of_char ch :: nat) \<le> 57"
proof -
  have "48 \<le> n \<and> n \<le> 57 \<longleftrightarrow> n \<in> {48, 49, 50, 51, 52, 53, 54, 55, 56, 57}" for n :: nat
    by (simp only: insert_iff empty_iff) arith
  then have "48 \<le> (of_char ch :: nat) \<and> (of_char ch :: nat) \<le> 57 \<longleftrightarrow>
        (of_char ch :: nat) \<in> of_char ` set ''0123456789''"
    by simp
  also have "\<dots> \<longleftrightarrow> ch \<in> set ''0123456789''"
    by (simp only: list.set image_insert image_empty insert_iff empty_iff of_char_eq_code)
  finally show ?thesis by (simp only: is_digit_def)
qed

lemma retryMs_exact:
  assumes "s \<noteq> []" and "list_all is_digit s" and "digits_val s * 1000 \<le> 2 ^ 53"
  shows "retryMs (Some s) = Fin (of_nat (digits_val s * 1000))"
proof -
  from assms(3) have "digits_val s \<le> 2 ^ 53" by simp
  from to_double_nat [OF this] to_double_nat [OF assms(3)] assms(1,2)
  show ?thesis by (simp add: retryMs_def times_1000_def)
qed

lemma nearest_2_53_000: "nearest 9007199254740992000 = 9007199254740992000"
proof -
  have l: "log2_floor 9007199254740992000 = int 62"
    by (rule log2_floor_eq) simp_all
  have u: "ulp 9007199254740992000 = 1024" by (simp add: ulp_def l)
  have "(9007199254740992000::rat) / 1024 = 8796093022208000" by simp
  then show ?thesis by (simp add: nearest_def u)
qed

lemma to_double_2_53_000: "to_double 9007199254740992000 = Fin 9007199254740992000"
proof -
  have "(9007199254740992000::rat) < 2 ^ 64" by simp
  also have "\<dots> < 2 ^ 1024" by (rule power_strict_increasing) simp_all
  finally have "\<not> (2::rat) ^ 1024 \<le> 9007199254740992000" by (simp only: not_le)
  then show ?thesis by (simp add: to_double_def nearest_2_53_000 del: power_numeral)
qed

text \<open>
  C4 (as amended). On a 429 the backoff is 10000 ms when there is no \<^verbatim>\<open>retry-after\<close>
  header or the header is not a non-empty string of decimal digits. When it is, the
  backoff is the number the header writes in base ten, times 1000, computed in doubles:
  exactly that product as long as it is at most \<open>2^53\<close>. The decimal digits are the
  characters 48 to 57. The iteration asks the timer for
  that wait after the request and continues with the same page number and the same count
  of fetched pages, so the \<open>max_pages\<close> guard is as before. However many 429 answers
  follow one another, the loop neither breaks nor aborts: it writes nothing, asks for the
  same page each time, and goes on with whatever answer comes next.
\<close>

theorem throttled_retries:
  assumes "\<forall>e \<in> set ts. throttled e" and "\<not> reached c st"
  shows "retryMs None = Fin 10000 \<and>
         (s = [] \<or> \<not> list_all is_digit s \<longrightarrow> retryMs (Some s) = Fin 10000) \<and>
         (s \<noteq> [] \<and> list_all is_digit s \<and> digits_val s * 1000 \<le> 2 ^ 53 \<longrightarrow>
            retryMs (Some s) = Fin (of_nat (digits_val s * 1000)) \<and>
            sleep_event (retryMs (Some s)) = Sleep (int (digits_val s * 1000))) \<and>
         digits_val [] = 0 \<and>
         (\<forall>d<10. digits_val (s @ [''0123456789'' ! d]) = 10 * digits_val s + d) \<and>
         (is_digit ch \<longleftrightarrow> 48 \<le> (of_char ch :: nat) \<and> (of_char ch :: nat) \<le> 57) \<and>
         (\<forall>e \<in> set ts. \<forall>sm. \<exists>h d. response e = Resp 429 h d \<and>
            fst (iteration c e sm) = Continue \<and>
            trace (snd (iteration c e sm)) = trace (send c e sm) @ [sleep_event (retryMs h)] \<and>
            page (snd (iteration c e sm)) = page sm \<and>
            fetchedPages (snd (iteration c e sm)) = fetchedPages sm \<and>
            reached c (snd (iteration c e sm)) = reached c sm) \<and>
         (\<exists>st'. loop c st ts = (Exhausted, st') \<and> page st' = page st \<and>
            fetchedPages st' = fetchedPages st \<and> writes (trace st') = writes (trace st) \<and>
            requested_pages (trace st') =
              requested_pages (trace st) @ replicate (length ts) (page st) \<and>
            (\<forall>rest. loop c st (ts @ rest) = loop c st' rest))"
proof -
  have 1: "retryMs None = Fin 10000" by (simp add: retryMs_def)
  have 2: "s = [] \<or> \<not> list_all is_digit s \<longrightarrow> retryMs (Some s) = Fin 10000"
    by (auto simp: retryMs_def)
  have 3: "s \<noteq> [] \<and> list_all is_digit s \<and> digits_val s * 1000 \<le> 2 ^ 53 \<longrightarrow>
            retryMs (Some s) = Fin (of_nat (digits_val s * 1000)) \<and>
            sleep_event (retryMs (Some s)) = Sleep (int (digits_val s * 1000))"
  proof (intro impI)
    assume a: "s \<noteq> [] \<and> list_all is_digit s \<and> digits_val s * 1000 \<le> 2 ^ 53"
    then have r: "retryMs (Some s) = Fin (of_nat (digits_val s * 1000))"
      by (intro retryMs_exact) simp_all
    have "sleep_event (Fin (of_nat (digits_val s * 1000))) = Sleep (int (digits_val s * 1000))"
      by (simp only: sleep_event_def jsnum.case floor_of_nat)
    with r show "retryMs (Some s) = Fin (of_nat (digits_val s * 1000)) \<and>
            sleep_event (retryMs (Some s)) = Sleep (int (digits_val s * 1000))"
      by simp
  qed
  have 4: "digits_val [] = 0" by (simp add: digits_val_def)
  have 5: "\<forall>d<10. digits_val (s @ [''0123456789'' ! d]) = 10 * digits_val s + d"
    by (simp add: digits_val_snoc digit_val_digit)
  have 6: "\<forall>e \<in> set ts. \<forall>sm. \<exists>h d. response e = Resp 429 h d \<and>
            fst (iteration c e sm) = Continue \<and>
            trace (snd (iteration c e sm)) = trace (send c e sm) @ [sleep_event (retryMs h)] \<and>
            page (snd (iteration c e sm)) = page sm \<and>
            fetchedPages (snd (iteration c e sm)) = fetchedPages sm \<and>
            reached c (snd (iteration c e sm)) = reached c sm"
  proof (intro ballI allI)
    fix e sm assume "e \<in> set ts"
    with assms(1) obtain h d where r: "response e = Resp 429 h d"
      using throttledD [of e] by auto
    show "\<exists>h d. response e = Resp 429 h d \<and>
            fst (iteration c e sm) = Continue \<and>
            trace (snd (iteration c e sm)) = trace (send c e sm) @ [sleep_event (retryMs h)] \<and>
            page (snd (iteration c e sm)) = page sm \<and>
            fetchedPages (snd (iteration c e sm)) = fetchedPages sm \<and>
            reached c (snd (iteration c e sm)) = reached c sm"
      using r by (simp add: iteration_429 [OF r] reached_def)
  qed
  from throttled_loop [OF assms] obtain st' where
    l: "loop c st ts = (Exhausted, st')" and
    k: "page st' = page st" "fetchedPages st' = fetchedPages st"
       "writes (trace st') = writes (trace st)"
       "requested_pages (trace st') = requested_pages (trace st) @ replicate (length ts) (page st)"
    by blast
  have "\<forall>rest. loop c st (ts @ rest) = loop c st' rest"
    using loop_append [OF l] by simp
  with l k have 7: "\<exists>st'. loop c st ts = (Exhausted, st') \<and> page st' = page st \<and>
            fetchedPages st' = fetchedPages st \<and> writes (trace st') = writes (trace st) \<and>
            requested_pages (trace st') =
              requested_pages (trace st) @ replicate (length ts) (page st) \<and>
            (\<forall>rest. loop c st (ts @ rest) = loop c st' rest)"
    by blast
  note 8 = is_digit_codes [of ch]
  from 1 2 3 4 5 8 6 7 show ?thesis by (intro conjI)
qed

theorem throttled_retries_witness:
  "throttled (answer (Resp 429 (Some ''120'') JNull)) \<and>
   throttled (answer (Resp 429 (Some ''soon'') JNull)) \<and>
   \<not> reached (cfg_of example_env example_req) (init_state example_env 1) \<and>
   digits_val ''120'' = 120 \<and>
   retryMs (Some ''120'') = Fin 120000 \<and>
   sleep_event (retryMs (Some ''120'')) = Sleep 120000 \<and>
   retryMs (Some ''soon'') = Fin 10000 \<and>
   fst (loop (cfg_of example_env example_req) (init_state example_env 1)
         [answer (Resp 429 (Some ''120'') JNull), answer (Resp 429 (Some ''soon'') JNull)])
     = Exhausted"
proof -
  let ?ts = "[answer (Resp 429 (Some ''120'') JNull), answer (Resp 429 (Some ''soon'') JNull)]"
  have t: "throttled (answer (Resp 429 (Some ''120'') JNull))"
          "throttled (answer (Resp 429 (Some ''soon'') JNull))"
    by (simp_all add: throttled_def answer_def)
  then have h1: "\<forall>e \<in> set ?ts. throttled e" by simp
  have h2: "\<not> reached (cfg_of example_env example_req) (init_state example_env 1)"
    by (simp add: eval_defs)
  have d: "digits_val ''120'' = 120" by (simp add: digits_val_def digit_val_def)
  have g: "''120'' \<noteq> [] \<and> list_all is_digit ''120'' \<and> digits_val ''120'' * 1000 \<le> 2 ^ 53"
    by (simp add: d is_digit_def)
  have n: "''soon'' = [] \<or> \<not> list_all is_digit ''soon''" by (simp add: is_digit_def)
  note th = throttled_retries [OF h1 h2]
  from th [of "''120''"] g
  have r: "retryMs (Some ''120'') = Fin (of_nat (digits_val ''120'' * 1000)) \<and>
           sleep_event (retryMs (Some ''120'')) = Sleep (int (digits_val ''120'' * 1000))"
    by blast
  from th [of "''soon''"] n have s: "retryMs (Some ''soon'') = Fin 10000" by blast
  from th [of "''120''"]
  obtain st' where "loop (cfg_of example_env example_req) (init_state example_env 1) ?ts
      = (Exhausted, st')"
    by blast
  then have l: "fst (loop (cfg_of example_env example_req) (init_state example_env 1) ?ts)
      = Exhausted"
    by (simp only: fst_conv)
  have r': "retryMs (Some ''120'') = Fin 120000"
    "sleep_event (retryMs (Some ''120'')) = Sleep 120000"
    using r [THEN conjunct1] r [THEN conjunct2] by (simp_all add: d)
  from t h2 d r' s l show ?thesis by blast
qed

text \<open>
  C4 as stated fails for a header that writes a number no double holds: for
  \<^verbatim>\<open>retry-after: 9007199254740993\<close> the code waits 9007199254740992000 ms, which is not
  the header's number times 1000.
\<close>

theorem backoff_rounded:
  "list_all is_digit ''9007199254740993'' \<and>
   digits_val ''9007199254740993'' = 9007199254740993 \<and>
   retryMs (Some ''9007199254740993'') = Fin 9007199254740992000 \<and>
   9007199254740992000 \<noteq> (9007199254740993 * 1000 :: rat) \<and>
   trace (snd (iteration (cfg_of example_env example_req)
       (answer (Resp 429 (Some ''9007199254740993'') JNull)) (init_state example_env 1)))
     = [Mkdir (baseDir example_env), Request 1700000000000 ''secret'' 1 200,
        Sleep 9007199254740992000]"
proof -
  have 1: "list_all is_digit ''9007199254740993''" by (simp add: is_digit_def)
  have 2: "digits_val ''9007199254740993'' = 9007199254740993"
    by (simp add: digits_val_def digit_val_def)
  have "to_double (of_nat (digits_val ''9007199254740993'')) = Fin 9007199254740992"
    unfolding 2 using to_double_tie_53 by simp
  then have 3: "retryMs (Some ''9007199254740993'') = Fin 9007199254740992000"
    using 1 to_double_2_53_000 by (simp add: retryMs_def times_1000_def)
  have 4: "9007199254740992000 \<noteq> (9007199254740993 * 1000 :: rat)" by simp
  have 5: "trace (snd (iteration (cfg_of example_env example_req)
       (answer (Resp 429 (Some ''9007199254740993'') JNull)) (init_state example_env 1)))
     = [Mkdir (baseDir example_env), Request 1700000000000 ''secret'' 1 200,
        Sleep 9007199254740992000]"
    unfolding iteration_429 [of "answer (Resp 429 (Some ''9007199254740993'') JNull)"
        "Some ''9007199254740993''" JNull, OF answer_response] snd_conv backoff_fields 3
    by (simp add: eval_defs sleep_event_def)
  from 1 2 3 4 5 show ?thesis by blast
qed










end
